(* ===== verification/Prelude.thy ===== *)
theory Prelude
  imports Main "HOL-Library.Word"
begin

text \<open>
  Shared vocabulary of the development: bytes, C++ exceptions as values, 32-bit fields in network
  byte order inside a byte vector, reads of a fixed number of bytes as a string, and the list
  lemmas the components use.  A C++ function that may throw returns \<open>exn + 'a\<close>; reading or
  writing a vector outside its bounds, which C++ leaves undefined, is the error
  \<open>UndefinedBehaviour\<close>, so that every theorem that excludes it shows the access in bounds.
\<close>

unbundle bit_operations_syntax

section \<open>Bytes, strings and exceptions\<close>

type_synonym byte = "8 word"
type_synonym bytes = "byte list"
type_synonym u32 = "32 word"
type_synonym u64 = "64 word"

datatype exn =
    RuntimeError string
  | RequestError string
  | AssetStorageError string bool
  | SQLiteError string int
  | RangeError string
  | BadNumericCast
  | BadLexicalCast
  | UndefinedBehaviour

type_synonym 'a result = "exn + 'a"

definition ebind :: "'a result \<Rightarrow> ('a \<Rightarrow> 'b result) \<Rightarrow> 'b result" where
  "ebind r f = (case r of Inl e \<Rightarrow> Inl e | Inr x \<Rightarrow> f x)"

lemma ebind_simps [simp]:
  "ebind (Inl e) f = Inl e"
  "ebind (Inr x) f = f x"
  by (simp_all add: ebind_def)

lemma ebind_cong [fundef_cong]:
  "r = r' \<Longrightarrow> (\<And>x. r' = Inr x \<Longrightarrow> f x = g x) \<Longrightarrow> ebind r f = ebind r' g"
  by (cases r') auto

lemma ebind_eq_Inr [simp]: "ebind r f = Inr y \<longleftrightarrow> (\<exists>x. r = Inr x \<and> f x = Inr y)"
  by (cases r) auto

text \<open>
  Code that changes state and may throw is a function from the state to a result and the state it
  leaves; a throw keeps the changes made before it.
\<close>

type_synonym ('s, 'a) action = "'s \<Rightarrow> 'a result \<times> 's"

definition areturn :: "'a \<Rightarrow> ('s, 'a) action" where
  "areturn x s = (Inr x, s)"

definition araise :: "exn \<Rightarrow> ('s, 'a) action" where
  "araise e s = (Inl e, s)"

definition alift :: "'a result \<Rightarrow> ('s, 'a) action" where
  "alift r s = (r, s)"

definition aget :: "('s \<Rightarrow> 'a) \<Rightarrow> ('s, 'a) action" where
  "aget f s = (Inr (f s), s)"

definition amodify :: "('s \<Rightarrow> 's) \<Rightarrow> ('s, unit) action" where
  "amodify f s = (Inr (), f s)"

definition abind :: "('s, 'a) action \<Rightarrow> ('a \<Rightarrow> ('s, 'b) action) \<Rightarrow> ('s, 'b) action" where
  "abind m f s = (case m s of (Inl e, s') \<Rightarrow> (Inl e, s') | (Inr x, s') \<Rightarrow> f x s')"

text \<open>
  \<open>catch (const std::exception&)\<close>: the handler gets the exception and the state it left.
  Undefined behaviour is not an exception.
\<close>

definition acatch :: "('s, 'a) action \<Rightarrow> (exn \<Rightarrow> ('s, 'a) action) \<Rightarrow> ('s, 'a) action" where
  "acatch m h s = (case m s of
      (Inl e, s') \<Rightarrow> (if e = UndefinedBehaviour then (Inl e, s') else h e s')
    | (Inr x, s') \<Rightarrow> (Inr x, s'))"

fun what :: "exn \<Rightarrow> string" where
  "what (RuntimeError m) = m"
| "what (RequestError m) = m"
| "what (AssetStorageError m _) = m"
| "what (SQLiteError m _) = m"
| "what (RangeError m) = m"
| "what BadNumericCast = ''bad numeric conversion: positive overflow''"
| "what BadLexicalCast = ''bad lexical cast: source type value could not be interpreted as target''"
| "what UndefinedBehaviour = ''''"

lemma action_simps [simp]:
  "areturn x s = (Inr x, s)" "araise e s = (Inl e, s)" "alift r s = (r, s)"
  "aget f s = (Inr (f s), s)" "amodify g s = (Inr (), g s)"
  by (simp_all add: areturn_def araise_def alift_def aget_def amodify_def)

lemma abind_run:
  "m s = (Inl e, s') \<Longrightarrow> abind m f s = (Inl e, s')"
  "m s = (Inr x, s') \<Longrightarrow> abind m f s = f x s'"
  by (simp_all add: abind_def)

lemma abind_simps [simp]:
  "abind (areturn x) f s = f x s" "abind (araise e) f s = (Inl e, s)"
  "abind (alift (Inr x)) f s = f x s" "abind (alift (Inl e)) f s = (Inl e, s)"
  "abind (aget g) f s = f (g s) s" "abind (amodify h) k s = k () (h s)"
  by (simp_all add: abind_def)

lemma action_if [simp]:
  "(if b then m else n) s = (if b then m s else n s)"
  "abind (if b then m else n) f s = (if b then abind m f s else abind n f s)"
  for m n :: "('s, 'a) action"
  by simp_all

lemma abind_assoc: "abind (abind m f) g s = abind m (\<lambda>x. abind (f x) g) s"
  by (simp add: abind_def split: prod.split sum.split)

text \<open>
  A relation between the states before and after an action, whether it throws or not.
\<close>

definition changes :: "('s \<Rightarrow> 's \<Rightarrow> bool) \<Rightarrow> ('s, 'a) action \<Rightarrow> bool" where
  "changes R m \<longleftrightarrow> (\<forall>s. R s (snd (m s)))"

lemma changesD: "changes R m \<Longrightarrow> m s = (r, s') \<Longrightarrow> R s s'"
  by (metis changes_def snd_conv)

lemma changes_pure [intro]:
  "reflp R \<Longrightarrow> changes R (areturn x)" "reflp R \<Longrightarrow> changes R (araise e)"
  "reflp R \<Longrightarrow> changes R (alift r)" "reflp R \<Longrightarrow> changes R (aget g)"
  by (simp_all add: changes_def reflp_def)

lemma changes_abind [intro]:
  assumes "transp R" and "changes R m" and "\<And>x. changes R (f x)"
  shows "changes R (abind m f)"
  unfolding changes_def
proof
  fix s
  show "R s (snd (abind m f s))"
  proof (cases "m s")
    case (Pair r t)
    then have "R s t" using assms(2) by (rule changesD [rotated])
    then show ?thesis
      using Pair assms(1) assms(3) [unfolded changes_def]
      by (cases r) (auto simp: abind_run elim: transpE)
  qed
qed

lemma changes_if [intro]: "changes R m \<Longrightarrow> changes R n \<Longrightarrow> changes R (if b then m else n)"
  by simp

definition byte_of_char :: "char \<Rightarrow> byte" where
  "byte_of_char c = of_nat (of_char c)"

definition char_of_byte :: "byte \<Rightarrow> char" where
  "char_of_byte b = char_of (unat b)"

definition bytes_of_string :: "string \<Rightarrow> bytes" where
  "bytes_of_string s = map byte_of_char s"

definition string_of_bytes :: "bytes \<Rightarrow> string" where
  "string_of_bytes bs = map char_of_byte bs"

lemma unat_byte_of_char [simp]: "unat (byte_of_char c) = of_char c"
  by (simp add: byte_of_char_def unat_of_nat)

lemma char_of_byte_of_char [simp]: "char_of_byte (byte_of_char c) = c"
  by (simp add: char_of_byte_def)

lemma byte_of_char_of_byte [simp]: "byte_of_char (char_of_byte b) = b"
proof -
  have "unat b < 2 ^ LENGTH(8)"
    by (rule unsigned_less)
  then have "unat b mod 256 = unat b"
    by simp
  then show ?thesis
    by (simp add: byte_of_char_def char_of_byte_def del: of_nat_mod)
qed

lemma string_of_bytes_of_string [simp]: "string_of_bytes (bytes_of_string s) = s"
  by (simp add: string_of_bytes_def bytes_of_string_def comp_def)

lemma bytes_of_string_of_bytes [simp]: "bytes_of_string (string_of_bytes bs) = bs"
  by (simp add: string_of_bytes_def bytes_of_string_def comp_def)

lemma length_bytes_of_string [simp]: "length (bytes_of_string s) = length s"
  by (simp add: bytes_of_string_def)

lemma length_string_of_bytes [simp]: "length (string_of_bytes bs) = length bs"
  by (simp add: string_of_bytes_def)

lemma bytes_of_string_append [simp]:
  "bytes_of_string (s @ t) = bytes_of_string s @ bytes_of_string t"
  by (simp add: bytes_of_string_def)

lemma bytes_of_string_inject [simp]: "bytes_of_string s = bytes_of_string t \<longleftrightarrow> s = t"
  by (metis string_of_bytes_of_string)

lemma byte_bit_cases:
  "n < LENGTH(8) \<Longrightarrow>
     n = 0 \<or> n = 1 \<or> n = 2 \<or> n = 3 \<or> n = 4 \<or> n = 5 \<or> n = 6 \<or> n = (7 :: nat)"
  by auto

text \<open>
  \<open>tolower\<close> of the C locale.
\<close>

definition tolower :: "char \<Rightarrow> char" where
  "tolower c = (if (65 :: nat) \<le> of_char c \<and> (of_char c :: nat) \<le> 90
                then char_of ((of_char c :: nat) + 32) else c)"

text \<open>
  Decimal numbers as \<open>operator<<\<close> prints them.
\<close>

definition digit :: "nat \<Rightarrow> char" where
  "digit n = char_of (48 + n)"

fun show_nat :: "nat \<Rightarrow> string" where
  "show_nat n = (if n < 10 then [digit n] else show_nat (n div 10) @ [digit (n mod 10)])"

declare show_nat.simps [simp del]

definition show_int :: "int \<Rightarrow> string" where
  "show_int i = (if i < 0 then CHR ''-'' # show_nat (nat (- i)) else show_nat (nat i))"

text \<open>
  A vector element: \<open>v[i]\<close> is undefined outside the vector.
\<close>

definition at :: "'a list \<Rightarrow> nat \<Rightarrow> 'a result" where
  "at xs i = (if i < length xs then Inr (xs ! i) else Inl UndefinedBehaviour)"

text \<open>
  \<open>std::string((char*)&v[off], n)\<close>: the \<open>n\<close> bytes of the vector from \<open>off\<close>.
\<close>

definition read_string :: "bytes \<Rightarrow> nat \<Rightarrow> nat \<Rightarrow> string result" where
  "read_string v off n =
     (if off + n \<le> length v then Inr (string_of_bytes (take n (drop off v)))
      else Inl UndefinedBehaviour)"

text \<open>
  \<open>boost::numeric_cast<unsigned int>\<close> of a container size.
\<close>

definition numeric_cast_u32 :: "nat \<Rightarrow> u32 result" where
  "numeric_cast_u32 n = (if n < 2 ^ 32 then Inr (of_nat n) else Inl BadNumericCast)"

section \<open>32-bit fields in network byte order\<close>

text \<open>
  Writing \<open>htonl(w)\<close> through an \<open>unsigned int*\<close> leaves the bytes of \<open>w\<close> in memory most
  significant first, whatever the byte order of the host; reading it back through \<open>ntohl\<close> is
  the inverse.
\<close>

definition be32 :: "u32 \<Rightarrow> bytes" where
  "be32 w = [ucast (drop_bit 24 w), ucast (drop_bit 16 w), ucast (drop_bit 8 w), ucast w]"

fun of_be32 :: "bytes \<Rightarrow> u32" where
  "of_be32 [a, b, c, d] =
     push_bit 24 (ucast a) OR push_bit 16 (ucast b) OR push_bit 8 (ucast c) OR ucast d"
| "of_be32 _ = 0"

lemma length_be32 [simp]: "length (be32 w) = 4"
  by (simp add: be32_def)

lemma of_be32_be32 [simp]: "of_be32 (be32 w) = w"
proof (rule bit_word_eqI)
  fix n assume "n < LENGTH(32)"
  then consider "n < 8" | "8 \<le> n" "n < 16" | "16 \<le> n" "n < 24" | "24 \<le> n" "n < 32"
    by fastforce
  then show "bit (of_be32 (be32 w)) n \<longleftrightarrow> bit w n"
    by cases (auto simp: be32_def bit_simps)
qed

definition poke32 :: "bytes \<Rightarrow> nat \<Rightarrow> u32 \<Rightarrow> bytes result" where
  "poke32 v off w =
     (if off + 4 \<le> length v then Inr (take off v @ be32 w @ drop (off + 4) v)
      else Inl UndefinedBehaviour)"

definition peek32 :: "bytes \<Rightarrow> nat \<Rightarrow> u32 result" where
  "peek32 v off =
     (if off + 4 \<le> length v then Inr (of_be32 (take 4 (drop off v)))
      else Inl UndefinedBehaviour)"

lemma peek32_poke32:
  "poke32 v off w = Inr v' \<Longrightarrow> peek32 v' off = Inr w"
  by (auto simp: poke32_def peek32_def split: if_splits)

lemma length_poke32: "poke32 v off w = Inr v' \<Longrightarrow> length v' = length v"
  by (auto simp: poke32_def split: if_splits)

end
