(* ===== verification/Uuid.thy ===== *)
theory Uuid
  imports Prelude
begin

text \<open>
  Asset identifiers: the syntactic check of \<open>Validator.cpp\<close> on their 32 character form, and the
  16 byte form of \<open>ooid/kashmir/uuid.h\<close> with its stream extraction and insertion, its total
  order and its version 4 constructor.  The lemmas show that the check accepts exactly the
  strings the insertion prints, that extraction and insertion are inverse on them, and what
  extraction does with every other string.
\<close>

section \<open>Validator::IsValidUUID\<close>

text \<open>A plain \<open>char\<close> as the signed integer C++ compares.\<close>

definition cchar :: "char \<Rightarrow> int" where
  "cchar c = (let n = of_char c in if n < (128 :: int) then n else n - 256)"

definition UUID_LEN :: nat where
  "UUID_LEN = 32"

definition IsValidUUID :: "string \<Rightarrow> bool" where
  "IsValidUUID uuid =
     (if length uuid \<noteq> UUID_LEN then False
      else list_all (\<lambda>ch. \<not> ((cchar ch < cchar CHR ''0'' \<or> cchar ch > cchar CHR ''9'')
                          \<and> (cchar ch < cchar CHR ''a'' \<or> cchar ch > cchar CHR ''f''))) uuid)"

section \<open>kashmir::uuid_t\<close>

datatype uuid = Uuid (octets: bytes)

definition hexdigits :: string where
  "hexdigits = ''0123456789abcdef''"

text \<open>\<open>std::find\<close> in \<open>hexdigits\<close> and the distance from its start.\<close>

fun find_index :: "'a \<Rightarrow> 'a list \<Rightarrow> nat option" where
  "find_index x [] = None"
| "find_index x (y # ys) = (if x = y then Some 0 else map_option Suc (find_index x ys))"

definition hex_find :: "char \<Rightarrow> byte option" where
  "hex_find c = map_option of_nat (find_index c hexdigits)"

definition isspace :: "char \<Rightarrow> bool" where
  "isspace c = (c \<in> set [CHR '' '', CHR 0x09, CHR 0x0A, CHR 0x0B, CHR 0x0C, CHR 0x0D])"

text \<open>
  A text input stream is the characters that are left and its failure bit.  \<open>is >> c\<close> skips
  white space and reads one character; when the stream has failed, or fails because it is at its
  end, \<open>c\<close> keeps its value.
\<close>

type_synonym istream = "string \<times> bool"

definition extract_char :: "char \<Rightarrow> istream \<Rightarrow> char \<times> istream" where
  "extract_char c st =
     (if snd st then (c, st)
      else case dropWhile isspace (fst st) of
        [] \<Rightarrow> (c, [], True)
      | d # r \<Rightarrow> (d, r, False))"

definition setfail :: "istream \<Rightarrow> istream" where
  "setfail st = (fst st, True)"

text \<open>The loop of \<open>uuid_t::get\<close>, with the number of octets still to read.\<close>

fun get_octets :: "nat \<Rightarrow> char \<Rightarrow> istream \<Rightarrow> bytes \<Rightarrow> bytes \<times> istream" where
  "get_octets 0 c st dat = (dat, st)"
| "get_octets (Suc n) c st dat =
     (let (c1, st1) = extract_char c st; c1 = tolower c1
      in case hex_find c1 of
        None \<Rightarrow> (dat, setfail st1)
      | Some h \<Rightarrow>
          (let (c2, st2) = extract_char c1 st1
           in case hex_find c2 of
             None \<Rightarrow> (dat @ [h], setfail st2)
           | Some l \<Rightarrow> get_octets n c2 st2 (dat @ [push_bit 4 h OR l])))"

text \<open>
  \<open>uuid_t(const char*)\<close>.  The stream's sentry skips white space first; when nothing is left
  the constructor returns without reading, and the octets stay uninitialised: \<open>Inr None\<close>.
\<close>

definition c_str :: "string \<Rightarrow> string" where
  "c_str s = takeWhile (\<lambda>c. c \<noteq> CHR 0x00) s"

definition uuid_get :: "string \<Rightarrow> uuid option result" where
  "uuid_get s =
     (let r = dropWhile isspace s
      in if r = [] then Inr None
         else let (dat, st) = get_octets 16 (CHR 0x00) (r, False) []
              in if snd st then Inl (RuntimeError ''failed to extract valid uuid from stream.'')
                 else Inr (Some (Uuid dat)))"

definition uuid_of_cstring :: "string \<Rightarrow> uuid option result" where
  "uuid_of_cstring s = uuid_get (c_str s)"

text \<open>
  Insertion into a stream whose flags ask for right, internal or left adjustment, with a field
  width and a fill character.
\<close>

definition put_octet :: "byte \<Rightarrow> string" where
  "put_octet b = [hexdigits ! unat (drop_bit 4 b), hexdigits ! unat (b AND 15)]"

definition uuid_string_size :: nat where
  "uuid_string_size = 36"

text \<open>With left adjustment the width of two of an octet is filled up on its right.\<close>

definition put_octet_left :: "byte \<Rightarrow> string" where
  "put_octet_left b = (if b < 16 then [hexdigits ! unat (b AND 15), CHR ''0''] else put_octet b)"

definition uuid_put :: "bool \<Rightarrow> bool \<Rightarrow> nat \<Rightarrow> char \<Rightarrow> uuid \<Rightarrow> string" where
  "uuid_put right left width fill u =
     (if right then replicate (width - uuid_string_size) fill else [])
     @ concat (map (if left \<and> \<not> right then put_octet_left else put_octet) (octets u))
     @ (if left then replicate (width - uuid_string_size) fill else [])"

definition is_nil :: "uuid \<Rightarrow> bool" where
  "is_nil u = list_all (\<lambda>b. b = 0) (octets u)"

text \<open>\<open>operator<\<close>: \<open>std::lexicographical_compare\<close> of the octets.\<close>

fun lex_less :: "bytes \<Rightarrow> bytes \<Rightarrow> bool" where
  "lex_less [] [] = False"
| "lex_less [] (_ # _) = True"
| "lex_less (_ # _) [] = False"
| "lex_less (x # xs) (y # ys) =
     (if x < y then True else if y < x then False else lex_less xs ys)"

definition uuid_less :: "uuid \<Rightarrow> uuid \<Rightarrow> bool" where
  "uuid_less l r = lex_less (octets l) (octets r)"

text \<open>Version 4 from 16 random octets.\<close>

definition uuid_v4 :: "bytes \<Rightarrow> uuid" where
  "uuid_v4 rnd =
     (let d = rnd[8 := (rnd ! 8 AND 0xbf) OR 0x80]
      in Uuid (d[6 := (d ! 6 AND 0x4f) OR 0x40]))"

section \<open>The order\<close>

lemma lex_less_irrefl: "\<not> lex_less xs xs"
  by (induction xs) auto

lemma lex_less_trans: "lex_less xs ys \<Longrightarrow> lex_less ys zs \<Longrightarrow> lex_less xs zs"
proof (induction xs ys arbitrary: zs rule: lex_less.induct)
  case (2 y ys)
  then show ?case by (cases zs) auto
next
  case (4 x xs y ys)
  then show ?case by (cases zs) (auto split: if_splits)
qed auto

lemma lex_less_linear: "lex_less xs ys \<or> xs = ys \<or> lex_less ys xs"
  by (induction xs ys rule: lex_less.induct) auto

instantiation uuid :: linorder
begin

definition less_uuid :: "uuid \<Rightarrow> uuid \<Rightarrow> bool" where
  "less_uuid = uuid_less"

definition less_eq_uuid :: "uuid \<Rightarrow> uuid \<Rightarrow> bool" where
  "less_eq_uuid l r = (\<not> uuid_less r l)"

instance
proof
  fix x y z :: uuid
  show "(x < y) = (x \<le> y \<and> \<not> y \<le> x)"
    unfolding less_uuid_def less_eq_uuid_def uuid_less_def
    using lex_less_trans lex_less_irrefl by blast
  show "x \<le> x"
    by (simp add: less_eq_uuid_def uuid_less_def lex_less_irrefl)
  show "x \<le> z" if "x \<le> y" "y \<le> z"
    using that unfolding less_eq_uuid_def uuid_less_def
    by (metis lex_less_linear lex_less_trans)
  show "x = y" if "x \<le> y" "y \<le> x"
    using that lex_less_linear [of "octets x" "octets y"]
    by (auto simp: less_eq_uuid_def uuid_less_def intro: uuid.expand)
  show "x \<le> y \<or> y \<le> x"
    unfolding less_eq_uuid_def uuid_less_def
    using lex_less_trans lex_less_irrefl by blast
qed

end

section \<open>Hexadecimal digits\<close>

definition is_hex :: "char \<Rightarrow> bool" where
  "is_hex c = (c \<in> set hexdigits)"

lemma is_hex_range:
  "is_hex ch \<longleftrightarrow> \<not> ((cchar ch < cchar CHR ''0'' \<or> cchar ch > cchar CHR ''9'')
                \<and> (cchar ch < cchar CHR ''a'' \<or> cchar ch > cchar CHR ''f''))"
proof -
  have "\<forall>ch. is_hex ch \<longleftrightarrow> \<not> ((cchar ch < cchar CHR ''0'' \<or> cchar ch > cchar CHR ''9'')
                \<and> (cchar ch < cchar CHR ''a'' \<or> cchar ch > cchar CHR ''f''))"
    by code_simp
  then show ?thesis by blast
qed

lemma IsValidUUID_iff: "IsValidUUID s \<longleftrightarrow> length s = 32 \<and> (\<forall>c \<in> set s. is_hex c)"
  unfolding IsValidUUID_def UUID_LEN_def is_hex_range [symmetric]
  by (simp add: list_all_iff)

lemma hex_digit_facts:
  "is_hex c \<Longrightarrow> \<not> isspace c \<and> tolower c = c \<and> c \<noteq> CHR 0x00"
proof -
  have "\<forall>c. is_hex c \<longrightarrow> \<not> isspace c \<and> tolower c = c \<and> c \<noteq> CHR 0x00"
    by code_simp
  then show "is_hex c \<Longrightarrow> ?thesis" by blast
qed

lemma hex_find_nth: "i < 16 \<Longrightarrow> hex_find (hexdigits ! i) = Some (of_nat i)"
proof -
  have "\<forall>i \<in> set [0..<16]. hex_find (hexdigits ! i) = Some (of_nat i)"
    by code_simp
  then show "i < 16 \<Longrightarrow> ?thesis" by simp
qed

lemma is_hex_nth [simp]: "i < 16 \<Longrightarrow> is_hex (hexdigits ! i)"
  unfolding is_hex_def by (rule nth_mem) (simp add: hexdigits_def)

lemma is_hex_obtain: "is_hex c \<Longrightarrow> \<exists>i < 16. c = hexdigits ! i"
proof -
  assume "is_hex c"
  moreover have "length hexdigits = 16"
    by (simp add: hexdigits_def)
  ultimately show ?thesis
    by (metis is_hex_def in_set_conv_nth)
qed

lemma hex_find_None: "hex_find c = None \<longleftrightarrow> \<not> is_hex c"
proof -
  have "\<forall>c. hex_find c = None \<longleftrightarrow> \<not> is_hex c"
    by code_simp
  then show ?thesis by blast
qed

lemma unat_high_nibble: "unat (drop_bit 4 (b :: byte)) < 16"
proof -
  have "unat b < 2 ^ LENGTH(8)"
    by (rule unsigned_less)
  then show ?thesis by (simp add: drop_bit_eq_div unat_div)
qed

lemma unat_low_nibble: "unat ((b :: byte) AND 15) < 16"
proof -
  have "b AND 15 \<le> 15"
    by (rule word_and_le1)
  then show ?thesis by (simp add: word_le_nat_alt)
qed

lemma nibbles_join: "push_bit 4 (drop_bit 4 b) OR (b AND 15) = (b :: byte)"
proof -
  have "(15 :: byte) = mask 4" by (simp add: mask_eq_exp_minus_1)
  then show ?thesis
    by (simp add: bit_eq_iff bit_simps) (auto simp: not_less)
qed

lemma is_hex_put_octet: "c \<in> set (put_octet b) \<Longrightarrow> is_hex c"
  by (auto simp: put_octet_def unat_high_nibble unat_low_nibble)

lemma put_octet_surj:
  assumes "is_hex c" and "is_hex d"
  shows "\<exists>b. put_octet b = [c, d]"
proof -
  have "\<forall>i \<in> set [0..<16]. \<forall>j \<in> set [0..<16].
          put_octet (of_nat (16 * i + j)) = [hexdigits ! i, hexdigits ! j]"
    by code_simp
  then have "\<And>i j. i < 16 \<Longrightarrow> j < 16 \<Longrightarrow>
      put_octet (of_nat (16 * i + j)) = [hexdigits ! i, hexdigits ! j]"
    by simp
  with assms [THEN is_hex_obtain] show ?thesis by metis
qed

section \<open>Extraction and insertion\<close>

lemma extract_char_hex:
  "is_hex d \<Longrightarrow> extract_char c (d # r, False) = (d, r, False)"
  by (simp add: extract_char_def hex_digit_facts)

lemma get_octets_put:
  "get_octets (length dat) c (concat (map put_octet dat) @ r, False) acc = (acc @ dat, r, False)"
proof (induction dat arbitrary: c acc)
  case Nil
  then show ?case by simp
next
  case (Cons b dat)
  let ?h = "hexdigits ! unat (drop_bit 4 b)" and ?l = "hexdigits ! unat (b AND 15)"
  have h: "is_hex ?h" and l: "is_hex ?l"
    by (simp_all add: unat_high_nibble unat_low_nibble)
  have "hex_find ?h = Some (drop_bit 4 b)" and "hex_find ?l = Some (b AND 15)"
    by (simp_all add: hex_find_nth unat_high_nibble unat_low_nibble)
  with Cons.IH [of ?l "acc @ [b]"] show ?case
    by (simp add: put_octet_def extract_char_hex [OF h] extract_char_hex [OF l]
        hex_digit_facts [OF h] nibbles_join)
qed

lemma uuid_get_put_raw:
  assumes "length dat = 16"
  shows "uuid_get (concat (map put_octet dat) @ r) = Inr (Some (Uuid dat))"
proof -
  from assms obtain b rest where dat: "dat = b # rest"
    by (cases dat) auto
  have h: "is_hex (hexdigits ! unat (drop_bit 4 b))"
    by (simp add: unat_high_nibble)
  then have "dropWhile isspace (concat (map put_octet dat) @ r) = concat (map put_octet dat) @ r"
    by (simp add: dat put_octet_def hex_digit_facts)
  moreover have "concat (map put_octet dat) @ r \<noteq> []"
    by (simp add: dat put_octet_def)
  ultimately show ?thesis
    using get_octets_put [of dat "CHR 0x00" r "[]"] assms
    by (simp add: uuid_get_def Let_def del: append_is_Nil_conv)
qed

lemma length_concat_put_octet: "length (concat (map put_octet dat)) = 2 * length dat"
  by (induction dat) (simp_all add: put_octet_def)

lemma hex_string_is_printed:
  assumes "length s = 2 * n" and "\<forall>c \<in> set s. is_hex c"
  shows "\<exists>dat. length dat = n \<and> concat (map put_octet dat) = s"
  using assms
proof (induction n arbitrary: s)
  case 0
  then show ?case by simp
next
  case (Suc n)
  then obtain c d t where s: "s = c # d # t"
    by (cases s; cases "tl s") auto
  with Suc obtain dat where "length dat = n" "concat (map put_octet dat) = t"
    by auto
  moreover from Suc.prems s obtain b where "put_octet b = [c, d]"
    using put_octet_surj [of c d] by auto
  ultimately show ?case
    using s by (intro exI [of _ "b # dat"]) simp
qed

lemma valid_c_str: "IsValidUUID s \<Longrightarrow> c_str s = s"
  unfolding c_str_def IsValidUUID_iff
  by (rule takeWhile_eq_all_conv [THEN iffD2]) (auto dest: hex_digit_facts)

lemma IsValidUUID_printed:
  "IsValidUUID s \<longleftrightarrow> (\<exists>dat. length dat = 16 \<and> concat (map put_octet dat) = s)"
proof
  assume "IsValidUUID s"
  then show "\<exists>dat. length dat = 16 \<and> concat (map put_octet dat) = s"
    using hex_string_is_printed [of s 16] by (simp add: IsValidUUID_iff)
next
  assume "\<exists>dat. length dat = 16 \<and> concat (map put_octet dat) = s"
  then show "IsValidUUID s"
    by (auto simp: IsValidUUID_iff length_concat_put_octet intro: is_hex_put_octet)
qed

text \<open>
  Extraction of a valid identifier succeeds, and two valid identifiers are the same octets only
  when they are the same string: comparing octets in the existence index is comparing strings.
\<close>

definition uuid_of :: "string \<Rightarrow> uuid" where
  "uuid_of s = (case uuid_of_cstring s of Inr (Some u) \<Rightarrow> u | _ \<Rightarrow> Uuid [])"

lemma uuid_of_cstring_valid:
  assumes "IsValidUUID s"
  shows "uuid_of_cstring s = Inr (Some (uuid_of s))"
    and "length (octets (uuid_of s)) = 16"
    and "uuid_put False False w f (uuid_of s) = s"
proof -
  obtain dat where dat: "length dat = 16" "concat (map put_octet dat) = s"
    using assms IsValidUUID_printed by blast
  then have get: "uuid_of_cstring s = Inr (Some (Uuid dat))"
    using uuid_get_put_raw [of dat "[]"] assms by (simp add: uuid_of_cstring_def valid_c_str)
  then show "uuid_of_cstring s = Inr (Some (uuid_of s))"
    by (simp add: uuid_of_def)
  from get dat show "length (octets (uuid_of s)) = 16" "uuid_put False False w f (uuid_of s) = s"
    by (simp_all add: uuid_of_def uuid_put_def)
qed

lemma uuid_of_inject:
  assumes "IsValidUUID s" and "IsValidUUID t"
  shows "uuid_of s = uuid_of t \<longleftrightarrow> s = t"
  by (metis assms uuid_of_cstring_valid(3))

lemma uuid_printed_valid: "length (octets u) = 16 \<Longrightarrow> IsValidUUID (uuid_put False False w f u)"
  by (auto simp: uuid_put_def IsValidUUID_printed)

lemma get_octets_accepts:
  assumes "length s = 2 * n" and "\<forall>c \<in> set s. \<not> isspace c"
  shows "\<not> snd (snd (get_octets n c (s, False) acc)) \<longleftrightarrow>
           (\<forall>i < n. is_hex (tolower (s ! (2 * i))) \<and> is_hex (s ! (2 * i + 1)))"
  using assms
proof (induction n arbitrary: s c acc)
  case 0
  then show ?case by simp
next
  case (Suc n)
  then obtain a b t where s: "s = a # b # t"
    by (cases s; cases "tl s") auto
  with Suc.prems have t: "length t = 2 * n" "\<forall>c \<in> set t. \<not> isspace c"
    and ns: "\<not> isspace a" "\<not> isspace b"
    by auto
  have all: "(\<forall>i < Suc n. is_hex (tolower (s ! (2 * i))) \<and> is_hex (s ! (2 * i + 1))) \<longleftrightarrow>
      is_hex (tolower a) \<and> is_hex b \<and>
      (\<forall>i < n. is_hex (tolower (t ! (2 * i))) \<and> is_hex (t ! (2 * i + 1)))"
    by (simp add: s All_less_Suc2)
  have ex: "\<And>c. extract_char c (a # b # t, False) = (a, b # t, False)"
    "\<And>c. extract_char c (b # t, False) = (b, t, False)"
    using ns by (simp_all add: extract_char_def)
  show ?case
  proof (cases "hex_find (tolower a)")
    case None
    then have "\<not> is_hex (tolower a)"
      by (simp add: hex_find_None)
    with None show ?thesis
      unfolding all by (simp add: s ex setfail_def Let_def)
  next
    case h: (Some h)
    show ?thesis
    proof (cases "hex_find b")
      case None
      then have "\<not> is_hex b"
        by (simp add: hex_find_None)
      with None show ?thesis
        unfolding all by (simp add: s ex setfail_def Let_def h)
    next
      case (Some l)
      with h have "is_hex (tolower a)" "is_hex b"
        by (metis hex_find_None option.distinct(1))+
      then show ?thesis
        unfolding all using Suc.IH [OF t] by (simp add: s ex Let_def h Some)
    qed
  qed
qed

lemma v4_version_bits:
  "drop_bit 4 ((b AND 0x4f) OR 0x40) = (4 :: byte)"
  "((b AND 0x4f) OR 0x40) AND 0x0f = b AND (0x0f :: byte)"
  "drop_bit 6 ((b AND 0xbf) OR 0x80) = (2 :: byte)"
  "((b AND 0xbf) OR 0x80) AND 0x3f = b AND (0x3f :: byte)"
  by (rule bit_word_eqI; drule byte_bit_cases; elim disjE; simp add: bit_simps bit_numeral_rec)+

section \<open>Properties\<close>

text \<open>C31: A string passes IsValidUUID exactly when it is what a 16 octet uuid prints: extraction
  from it yields those octets and inserting them prints the string again.\<close>

theorem uuid_text_roundtrip:
  "IsValidUUID s \<longleftrightarrow>
     (\<exists>u. length (octets u) = 16 \<and> uuid_of_cstring s = Inr (Some u)
          \<and> uuid_put False False 0 fill u = s)"
  by (metis uuid_of_cstring_valid uuid_printed_valid)

text \<open>C32: Of a 32 character string without white space, extraction accepts upper case digits in
  the first place of an octet and only lower case digits in the second.\<close>

theorem uuid_get_accepts:
  assumes "length s = 32" and "\<forall>c \<in> set s. \<not> isspace c"
  shows "(\<exists>u. uuid_get s = Inr (Some u)) \<longleftrightarrow>
           (\<forall>i < 16. is_hex (tolower (s ! (2 * i))) \<and> is_hex (s ! (2 * i + 1)))"
proof -
  obtain c t where "s = c # t"
    using assms(1) by (cases s) auto
  with assms(2) have "dropWhile isspace s = s" and "s \<noteq> []"
    by auto
  then show ?thesis
    using get_octets_accepts [of s 16 "CHR 0x00" "[]"] assms
    by (auto simp: uuid_get_def Let_def split: prod.splits)
qed

theorem uuid_get_accepts_witness:
  "(\<exists>u. uuid_get ''Ab000000000000000000000000000000'' = Inr (Some u)) \<and>
   \<not> (\<exists>u. uuid_get ''aB000000000000000000000000000000'' = Inr (Some u))"
proof -
  let ?ok = "''Ab000000000000000000000000000000''" and ?bad = "''aB000000000000000000000000000000''"
  have "\<forall>i < 16. is_hex (tolower (?ok ! (2 * i))) \<and> is_hex (?ok ! (2 * i + 1))"
    and "\<not> (\<forall>i < 16. is_hex (tolower (?bad ! (2 * i))) \<and> is_hex (?bad ! (2 * i + 1)))"
    by code_simp+
  moreover have "length ?ok = 32" "\<forall>c \<in> set ?ok. \<not> isspace c"
    and "length ?bad = 32" "\<forall>c \<in> set ?bad. \<not> isspace c"
    by (simp_all add: isspace_def)
  ultimately show ?thesis
    using uuid_get_accepts [of ?ok] uuid_get_accepts [of ?bad] by blast
qed

text \<open>C33: The random constructor sets the version nibble of octet 6 to 4 and the variant bits of
  octet 8 to 10, keeps the other bits of those two octets and every other octet.\<close>

theorem uuid_v4_fields:
  assumes "length rnd = 16"
  shows "drop_bit 4 (octets (uuid_v4 rnd) ! 6) = 4
       \<and> octets (uuid_v4 rnd) ! 6 AND 0x0f = rnd ! 6 AND 0x0f
       \<and> drop_bit 6 (octets (uuid_v4 rnd) ! 8) = 2
       \<and> octets (uuid_v4 rnd) ! 8 AND 0x3f = rnd ! 8 AND 0x3f
       \<and> (\<forall>i. i \<noteq> 6 \<longrightarrow> i \<noteq> 8 \<longrightarrow> octets (uuid_v4 rnd) ! i = rnd ! i)"
  using assms by (simp add: uuid_v4_def Let_def v4_version_bits)

theorem uuid_v4_fields_witness:
  "octets (uuid_v4 (replicate 16 255)) ! 6 = 0x4f \<and>
   drop_bit 6 (octets (uuid_v4 (replicate 16 255)) ! 8) = 2"
  using uuid_v4_fields [of "replicate 16 255"] by (simp add: uuid_v4_def)

text \<open>C34: A field width is honoured as if the dashes of the standard form were still printed: with
  right adjustment the output is four characters short of any width above 36.\<close>

theorem uuid_put_width:
  assumes "length (octets u) = 16"
  shows "length (uuid_put True False w fill u) = (if w \<le> 36 then 32 else w - 4)"
  using assms by (simp add: uuid_put_def length_concat_put_octet uuid_string_size_def)

theorem uuid_put_width_witness:
  "length (uuid_put True False 40 (CHR '' '') (Uuid (replicate 16 0))) = 36"
  using uuid_put_width [of "Uuid (replicate 16 0)" 40 "CHR '' ''"] by simp

end
