(* ===== verification/Sha1.thy ===== *)
theory Sha1
  imports Prelude
begin

text \<open>
  The class CSHA1 of \<open>SHA1.cpp\<close>, which the authentication handshake hashes with, on 32-bit words
  as the code keeps them, and the FIPS 180-1 algorithm it implements.  The model is built for a
  little-endian host without \<open>_MSC_VER\<close>, with wiping of variables, which is what the header
  selects by default.  The lemmas relate the circular 16 word schedule of \<open>Transform\<close> to the
  80 word schedule of the standard, show that \<open>Update\<close> absorbs a message however it is cut, and
  that \<open>Final\<close> pads it as the standard does.
\<close>

section \<open>The implementation\<close>

record CSHA1 =
  m_state :: "u32 list"
  m_count0 :: u32
  m_count1 :: u32
  m_buffer :: bytes
  m_digest :: bytes
  m_block :: "u32 list"

definition ROL32 :: "u32 \<Rightarrow> nat \<Rightarrow> u32" where
  "ROL32 x n = push_bit n x OR drop_bit (32 - n) x"

definition Reset :: "CSHA1 \<Rightarrow> CSHA1" where
  "Reset s = s\<lparr>m_state := [0x67452301, 0xEFCDAB89, 0x98BADCFE, 0x10325476, 0xC3D2E1F0],
                m_count0 := 0, m_count1 := 0\<rparr>"

text \<open>
  The macros SHABLK0 and SHABLK update one word of the workspace and yield it.
\<close>

definition SHABLK0 :: "u32 list \<Rightarrow> nat \<Rightarrow> u32 \<times> u32 list" where
  "SHABLK0 l i =
     (let v = (ROL32 (l ! i) 24 AND 0xFF00FF00) OR (ROL32 (l ! i) 8 AND 0x00FF00FF)
      in (v, l[i := v]))"

definition SHABLK :: "u32 list \<Rightarrow> nat \<Rightarrow> u32 \<times> u32 list" where
  "SHABLK l i =
     (let v = ROL32 (l ! ((i + 13) mod 16) XOR l ! ((i + 8) mod 16)
                     XOR l ! ((i + 2) mod 16) XOR l ! (i mod 16)) 1
      in (v, l[i mod 16 := v]))"

text \<open>
  The rounds \<open>_R0\<close> to \<open>_R4\<close>.  A round reads the variables \<open>v w x y z\<close>, adds to \<open>z\<close> and rotates
  \<open>w\<close>; the next one names the variables \<open>z v w x y\<close>, and the result is in that order.
\<close>

type_synonym vars = "u32 \<times> u32 \<times> u32 \<times> u32 \<times> u32"

fun R0 :: "vars \<times> u32 list \<Rightarrow> nat \<Rightarrow> vars \<times> u32 list" where
  "R0 ((v, w, x, y, z), l) i =
     (let (b, l) = SHABLK0 l i;
          z = z + (((w AND (x XOR y)) XOR y) + b + 0x5A827999 + ROL32 v 5)
      in ((z, v, ROL32 w 30, x, y), l))"

fun R1 :: "vars \<times> u32 list \<Rightarrow> nat \<Rightarrow> vars \<times> u32 list" where
  "R1 ((v, w, x, y, z), l) i =
     (let (b, l) = SHABLK l i;
          z = z + (((w AND (x XOR y)) XOR y) + b + 0x5A827999 + ROL32 v 5)
      in ((z, v, ROL32 w 30, x, y), l))"

fun R2 :: "vars \<times> u32 list \<Rightarrow> nat \<Rightarrow> vars \<times> u32 list" where
  "R2 ((v, w, x, y, z), l) i =
     (let (b, l) = SHABLK l i;
          z = z + ((w XOR x XOR y) + b + 0x6ED9EBA1 + ROL32 v 5)
      in ((z, v, ROL32 w 30, x, y), l))"

fun R3 :: "vars \<times> u32 list \<Rightarrow> nat \<Rightarrow> vars \<times> u32 list" where
  "R3 ((v, w, x, y, z), l) i =
     (let (b, l) = SHABLK l i;
          z = z + ((((w OR x) AND y) OR (w AND x)) + b + 0x8F1BBCDC + ROL32 v 5)
      in ((z, v, ROL32 w 30, x, y), l))"

fun R4 :: "vars \<times> u32 list \<Rightarrow> nat \<Rightarrow> vars \<times> u32 list" where
  "R4 ((v, w, x, y, z), l) i =
     (let (b, l) = SHABLK l i;
          z = z + ((w XOR x XOR y) + b + 0xCA62C1D6 + ROL32 v 5)
      in ((z, v, ROL32 w 30, x, y), l))"

definition sha_round :: "nat \<Rightarrow> vars \<times> u32 list \<Rightarrow> vars \<times> u32 list" where
  "sha_round i st =
     (if i < 16 then R0 st i else if i < 20 then R1 st i else if i < 40 then R2 st i
      else if i < 60 then R3 st i else R4 st i)"

text \<open>\<open>memcpy\<close> of 64 bytes into the workspace, read as 16 words of a little-endian host.\<close>

definition le32_at :: "bytes \<Rightarrow> nat \<Rightarrow> u32" where
  "le32_at b i = of_be32 [b ! (4 * i + 3), b ! (4 * i + 2), b ! (4 * i + 1), b ! (4 * i)]"

definition load_block :: "bytes \<Rightarrow> u32 list" where
  "load_block b = map (le32_at b) [0..<16]"

definition Transform :: "CSHA1 \<Rightarrow> bytes \<Rightarrow> CSHA1" where
  "Transform s pBuffer =
     (let st = m_state s;
          ((a, b, c, d, e), l) =
            fold sha_round [0..<80] ((st ! 0, st ! 1, st ! 2, st ! 3, st ! 4), load_block pBuffer)
      in s\<lparr>m_state := [st ! 0 + a, st ! 1 + b, st ! 2 + c, st ! 3 + d, st ! 4 + e],
           m_block := l\<rparr>)"

text \<open>\<open>memcpy\<close> of \<open>n\<close> bytes of an object into the 64 byte buffer.\<close>

definition copy_to_buffer :: "CSHA1 \<Rightarrow> nat \<Rightarrow> bytes \<Rightarrow> nat \<Rightarrow> nat \<Rightarrow> CSHA1 result" where
  "copy_to_buffer s j src i n =
     (if j + n \<le> 64 \<and> i + n \<le> length src
      then Inr (s\<lparr>m_buffer := take j (m_buffer s) @ take n (drop i src)
                              @ drop (j + n) (m_buffer s)\<rparr>)
      else Inl UndefinedBehaviour)"

text \<open>
  The loop of Update over whole blocks of the input.  A block that is not inside the object, or
  whose end does not fit the index type, is not a defined read.
\<close>

function update_blocks :: "bytes \<Rightarrow> u32 \<Rightarrow> CSHA1 \<Rightarrow> u32 \<Rightarrow> (CSHA1 \<times> u32) result" where
  "update_blocks pbData uLen s i =
     (if i + 63 < uLen then
        (if unat i + 64 \<le> length pbData \<and> unat i + 64 < 2 ^ 32
         then update_blocks pbData uLen (Transform s (take 64 (drop (unat i) pbData))) (i + 64)
         else Inl UndefinedBehaviour)
      else Inr (s, i))"
  by pat_completeness auto
termination
  by (relation "measure (\<lambda>(pbData, uLen, s, i). 2 ^ 32 - unat i)")
    (auto simp: unat_word_ariths)

declare update_blocks.simps [simp del]

text \<open>The callers pass an object and its length as \<open>uLen\<close>.\<close>

definition add_length :: "CSHA1 \<Rightarrow> u32 \<Rightarrow> CSHA1" where
  "add_length s uLen =
     (let c0 = m_count0 s + push_bit 3 uLen;
          c1 = (if c0 < push_bit 3 uLen then m_count1 s + 1 else m_count1 s)
      in s\<lparr>m_count0 := c0, m_count1 := c1 + drop_bit 29 uLen\<rparr>)"

definition fill_blocks :: "CSHA1 \<Rightarrow> bytes \<Rightarrow> u32 \<Rightarrow> u32 \<Rightarrow> (CSHA1 \<times> u32 \<times> u32) result" where
  "fill_blocks s pbData uLen j =
     (if j + uLen > 63 then
        ebind (copy_to_buffer s (unat j) pbData 0 (unat (64 - j)))
          (\<lambda>s. ebind (update_blocks pbData uLen (Transform s (m_buffer s)) (64 - j))
          (\<lambda>(s, i). Inr (s, i, 0)))
      else Inr (s, 0, j))"

definition Update :: "CSHA1 \<Rightarrow> bytes \<Rightarrow> CSHA1 result" where
  "Update s pbData =
     (let uLen = of_nat (length pbData)
      in ebind (fill_blocks (add_length s uLen) pbData uLen (drop_bit 3 (m_count0 s) AND 0x3F))
           (\<lambda>(s, i, j).
              if uLen - i \<noteq> 0 then copy_to_buffer s (unat j) pbData (unat i) (unat (uLen - i))
              else Inr s))"

lemma copy_to_buffer_Inr [simp]:
  "copy_to_buffer s j src i n = Inr s' \<longleftrightarrow>
     j + n \<le> 64 \<and> i + n \<le> length src \<and>
     s' = s\<lparr>m_buffer := take j (m_buffer s) @ take n (drop i src) @ drop (j + n) (m_buffer s)\<rparr>"
  by (auto simp: copy_to_buffer_def)

lemma Transform_frame [simp]:
  "m_count0 (Transform s m) = m_count0 s" "m_count1 (Transform s m) = m_count1 s"
  "m_buffer (Transform s m) = m_buffer s" "m_digest (Transform s m) = m_digest s"
  by (simp_all add: Transform_def Let_def split: prod.splits)

lemma update_blocks_frame:
  "update_blocks pbData uLen s i = Inr (s', i') \<Longrightarrow>
     m_count0 s' = m_count0 s \<and> m_count1 s' = m_count1 s \<and> m_buffer s' = m_buffer s
     \<and> m_digest s' = m_digest s"
proof (induction pbData uLen s i rule: update_blocks.induct)
  case (1 pbData uLen s i)
  then show ?case
    by (simp add: update_blocks.simps [of pbData uLen s i] split: if_splits)
qed

lemma fill_blocks_frame:
  "fill_blocks s d uLen j = Inr (s', i', j') \<Longrightarrow>
     m_count0 s' = m_count0 s \<and> m_count1 s' = m_count1 s \<and> m_digest s' = m_digest s"
  by (auto simp: fill_blocks_def dest!: update_blocks_frame split: if_splits)

lemma Update_frame:
  assumes "Update s d = Inr s'"
  shows "m_count0 s' = m_count0 s + push_bit 3 (of_nat (length d))"
    and "m_count1 s' = m_count1 (add_length s (of_nat (length d)))"
    and "m_digest s' = m_digest s"
proof -
  obtain t i j where t: "fill_blocks (add_length s (of_nat (length d))) d (of_nat (length d))
      (drop_bit 3 (m_count0 s) AND 0x3F) = Inr (t, i, j)"
    and s': "s' = t \<or> (\<exists>b. s' = t\<lparr>m_buffer := b\<rparr>)"
    using assms by (auto simp: Update_def Let_def split: if_splits)
  from fill_blocks_frame [OF t] s'
  show "m_count0 s' = m_count0 s + push_bit 3 (of_nat (length d))"
    and "m_count1 s' = m_count1 (add_length s (of_nat (length d)))"
    and "m_digest s' = m_digest s"
    by (auto simp: add_length_def Let_def)
qed

text \<open>
  Final pads with a loop that feeds zero bytes until the bit count is 448 modulo 512.
\<close>

function pad_zeros :: "CSHA1 \<Rightarrow> CSHA1 result" where
  "pad_zeros s = (if m_count0 s AND 504 \<noteq> 448 then ebind (Update s [0]) pad_zeros else Inr s)"
  by pat_completeness auto

lemma count_pos: "unat (drop_bit 3 c AND 0x3F) = unat c div 8 mod 64" for c :: u32
proof -
  have "(0x3F :: u32) = mask 6" by code_simp
  then have "drop_bit 3 c AND 0x3F = take_bit 6 (drop_bit 3 c)"
    by (simp only: take_bit_eq_mask)
  then show ?thesis
    by (simp add: unat_div unat_mod take_bit_eq_mod drop_bit_eq_div)
qed

lemma count_448: "c AND 504 = 448 \<longleftrightarrow> unat c div 8 mod 64 = 56" for c :: u32
proof -
  have mask: "(504 :: u32) = push_bit 3 (mask 6)" by code_simp
  have "c AND 504 = push_bit 3 (take_bit 6 (drop_bit 3 c))"
    unfolding mask by (rule bit_word_eqI) (auto simp: bit_simps)
  then have "unat (c AND 504) = unat (push_bit 3 (take_bit 6 (drop_bit 3 c)))"
    by (rule arg_cong)
  also have "\<dots> = 8 * (unat c div 8 mod 64)"
    by (simp add: take_bit_eq_mod drop_bit_eq_div push_bit_eq_mult unat_word_ariths unat_div unat_mod
        mod_mod_cancel)
  finally have "c AND 504 = 448 \<longleftrightarrow> 8 * (unat c div 8 mod 64) = unat (448 :: u32)"
    by (simp add: word_unat_eq_iff)
  then show ?thesis by simp
qed

lemma pos_mod: "(x mod 4294967296) div 8 mod 64 = x div 8 mod (64 :: nat)"
proof -
  have "take_bit 6 (drop_bit 3 (take_bit 32 x)) = take_bit 6 (drop_bit 3 x)"
    by (rule bit_eqI) (auto simp: bit_simps)
  then show ?thesis
    by (simp add: take_bit_eq_mod drop_bit_eq_div)
qed

lemma count_step: "unat (c + 8) div 8 mod 64 = Suc (unat c div 8) mod 64" for c :: u32
  using div_add_self2 [of 8 "unat c"] by (simp add: unat_word_ariths pos_mod)

lemma pad_step:
  assumes "n mod 64 \<noteq> (56 :: nat)"
  shows "(120 - n mod 64) mod 64 = Suc ((120 - Suc n mod 64) mod 64)"
proof -
  have "\<forall>q \<in> set [0..<64]. q \<noteq> 56 \<longrightarrow>
      (120 - q) mod (64 :: nat) = Suc ((120 - (if Suc q = 64 then 0 else Suc q)) mod 64)"
    by code_simp
  moreover have "n mod 64 \<in> set [0..<64]" by simp
  ultimately show ?thesis
    using assms unfolding mod_Suc by blast
qed

termination pad_zeros
proof (relation "measure (\<lambda>s. (120 - unat (m_count0 s) div 8 mod 64) mod 64)")
  fix s s' assume s: "m_count0 s AND 504 \<noteq> 448" and "Update s [0] = Inr s'"
  then have "unat (m_count0 s') div 8 mod 64 = Suc (unat (m_count0 s) div 8) mod 64"
    using Update_frame(1) [of s "[0]" s'] by (simp add: count_step push_bit_eq_mult)
  with s show "(s', s) \<in> measure (\<lambda>s. (120 - unat (m_count0 s) div 8 mod 64) mod 64)"
    using pad_step unfolding count_448 by simp
qed simp

declare pad_zeros.simps [simp del]

definition Final :: "CSHA1 \<Rightarrow> CSHA1 result" where
  "Final s =
     (let finalcount = be32 (m_count1 s) @ be32 (m_count0 s)
      in ebind (Update s [0x80]) (\<lambda>s.
         ebind (pad_zeros s) (\<lambda>s.
         ebind (Update s finalcount) (\<lambda>s.
         let s = s\<lparr>m_digest := concat (map be32 (m_state s))\<rparr>;
             s = s\<lparr>m_buffer := replicate 64 0, m_state := replicate 5 0,
                   m_count0 := 0, m_count1 := 0\<rparr>
         in Inr (Transform s (m_buffer s))))))"

text \<open>
  The reports.  The formats are those of \<open>printf\<close>; \<open>ReportHashStl\<close> writes the text and its
  terminator to an array of 84 characters.
\<close>

datatype REPORT_TYPE = REPORT_HEX | REPORT_DIGIT | REPORT_HEX_SHORT

definition hex_upper :: "nat \<Rightarrow> char" where
  "hex_upper n = ''0123456789ABCDEF'' ! n"

definition fmt_02X :: "byte \<Rightarrow> string" where
  "fmt_02X b = [hex_upper (unat b div 16), hex_upper (unat b mod 16)]"

fun decimal :: "nat \<Rightarrow> string" where
  "decimal n = (if n < 10 then [''0123456789'' ! n] else decimal (n div 10) @ [''0123456789'' ! (n mod 10)])"

declare decimal.simps [simp del]

definition fmt_u :: "byte \<Rightarrow> string" where
  "fmt_u b = decimal (unat b)"

fun ReportHash :: "CSHA1 \<Rightarrow> REPORT_TYPE \<Rightarrow> string" where
  "ReportHash s REPORT_HEX =
     fmt_02X (hd (m_digest s)) @ concat (map (\<lambda>b. '' '' @ fmt_02X b) (tl (m_digest s)))"
| "ReportHash s REPORT_HEX_SHORT =
     fmt_02X (hd (m_digest s)) @ concat (map fmt_02X (tl (m_digest s)))"
| "ReportHash s REPORT_DIGIT =
     fmt_u (hd (m_digest s)) @ concat (map (\<lambda>b. '' '' @ fmt_u b) (tl (m_digest s)))"

definition ReportHashStl :: "CSHA1 \<Rightarrow> REPORT_TYPE \<Rightarrow> string result" where
  "ReportHashStl s t =
     (if length (ReportHash s t) < 84 then Inr (map tolower (ReportHash s t))
      else Inl UndefinedBehaviour)"

definition SHA1_MAX_FILE_BUFFER :: int where
  "SHA1_MAX_FILE_BUFFER = 8000"

text \<open>
  HashFile over an opened file: its size as \<open>ftell\<close> reports it and what the successive calls of
  \<open>fread\<close> have to give, of which a call takes at most what was asked for.
\<close>

fun hash_reads :: "CSHA1 \<Rightarrow> int \<Rightarrow> bytes list \<Rightarrow> (CSHA1 \<times> bool) result" where
  "hash_reads s lRemaining [] = Inr (s, lRemaining = 0)"
| "hash_reads s lRemaining (r # rs) =
     (if lRemaining > 0 then
        let uMaxRead = nat (if lRemaining > SHA1_MAX_FILE_BUFFER then SHA1_MAX_FILE_BUFFER
                            else lRemaining);
            vData = take uMaxRead r
        in if vData = [] then Inr (s, False)
           else ebind (Update s vData)
                  (\<lambda>s. hash_reads s (lRemaining - int (length vData)) rs)
      else Inr (s, lRemaining = 0))"

fun HashFile :: "CSHA1 \<Rightarrow> (int \<times> bytes list) option \<Rightarrow> (CSHA1 \<times> bool) result" where
  "HashFile s None = Inr (s, False)"
| "HashFile s (Some (lFileSize, reads)) = hash_reads s lFileSize reads"

definition GetHash :: "CSHA1 \<Rightarrow> bytes" where
  "GetHash s = m_digest s"

section \<open>The standard\<close>

text \<open>
  FIPS 180-1: the functions and constants, the 80 word schedule of a block, one step on the five
  working variables, and the compression of a block into the chaining value.
\<close>

definition fips_f :: "nat \<Rightarrow> u32 \<Rightarrow> u32 \<Rightarrow> u32 \<Rightarrow> u32" where
  "fips_f t b c d =
     (if t < 20 then (b AND c) OR (NOT b AND d)
      else if t < 40 then b XOR c XOR d
      else if t < 60 then (b AND c) OR (b AND d) OR (c AND d)
      else b XOR c XOR d)"

definition fips_K :: "nat \<Rightarrow> u32" where
  "fips_K t =
     (if t < 20 then 0x5A827999 else if t < 40 then 0x6ED9EBA1
      else if t < 60 then 0x8F1BBCDC else 0xCA62C1D6)"

fun fips_W :: "bytes \<Rightarrow> nat \<Rightarrow> u32" where
  "fips_W m t =
     (if t < 16 then of_be32 (take 4 (drop (4 * t) m))
      else ROL32 (fips_W m (t - 3) XOR fips_W m (t - 8) XOR fips_W m (t - 14) XOR fips_W m (t - 16)) 1)"

declare fips_W.simps [simp del]

fun fips_step :: "bytes \<Rightarrow> nat \<Rightarrow> vars \<Rightarrow> vars" where
  "fips_step m t (a, b, c, d, e) =
     (ROL32 a 5 + fips_f t b c d + e + fips_K t + fips_W m t, a, ROL32 b 30, c, d)"

definition fips_compress :: "bytes \<Rightarrow> u32 list \<Rightarrow> u32 list" where
  "fips_compress m H =
     (let (a, b, c, d, e) = fold (fips_step m) [0..<80] (H ! 0, H ! 1, H ! 2, H ! 3, H ! 4)
      in [H ! 0 + a, H ! 1 + b, H ! 2 + c, H ! 3 + d, H ! 4 + e])"

lemma byte_swap:
  "(ROL32 (of_be32 [d, c, b, a]) 24 AND 0xFF00FF00) OR (ROL32 (of_be32 [d, c, b, a]) 8 AND 0x00FF00FF)
   = of_be32 [a, b, c, d]"
proof (rule bit_word_eqI)
  have hi: "(0xFF00FF00 :: u32) = push_bit 8 (mask 8) OR push_bit 24 (mask 8)"
    and lo: "(0x00FF00FF :: u32) = mask 8 OR push_bit 16 (mask 8)" by code_simp+
  fix n assume "n < LENGTH(32)"
  then consider "n < 8" | "8 \<le> n" "n < 16" | "16 \<le> n" "n < 24" | "24 \<le> n" "n < 32"
    by fastforce
  then show "bit ((ROL32 (of_be32 [d, c, b, a]) 24 AND 0xFF00FF00)
       OR (ROL32 (of_be32 [d, c, b, a]) 8 AND 0x00FF00FF)) n = bit (of_be32 [a, b, c, d]) n"
    unfolding hi lo
    by cases (auto simp: ROL32_def bit_simps not_less dest: bit_imp_le_length)
qed

lemma ch_eq: "((w AND (x XOR y)) XOR y) = (w AND x) OR (NOT w AND y)" for w x y :: u32
  by (rule bit_word_eqI) (auto simp: bit_simps)

lemma maj_eq: "(((w OR x) AND y) OR (w AND x)) = (w AND x) OR (w AND y) OR (x AND y)" for w x y :: u32
  by (rule bit_word_eqI) (auto simp: bit_simps)

definition sched_inv :: "bytes \<Rightarrow> nat \<Rightarrow> u32 list \<Rightarrow> bool" where
  "sched_inv m n l \<longleftrightarrow> length l = 16
     \<and> (\<forall>t. t < n \<and> n \<le> t + 16 \<longrightarrow> l ! (t mod 16) = fips_W m t)
     \<and> (\<forall>k. n \<le> k \<and> k < 16 \<longrightarrow> l ! k = le32_at m k)"

lemma take4: "4 * i + 4 \<le> length m \<Longrightarrow>
  take 4 (drop (4 * i) m) = [m ! (4 * i), m ! (4 * i + 1), m ! (4 * i + 2), m ! (4 * i + 3)]"
  by (rule nth_equalityI) (auto simp: less_Suc_eq numeral_eq_Suc)

lemma SHABLK0_W:
  assumes "sched_inv m n l" and "n < 16" and "length m = 64"
  shows "fst (SHABLK0 l n) = fips_W m n" and "sched_inv m (Suc n) (snd (SHABLK0 l n))"
proof -
  have "l ! n = le32_at m n"
    using assms by (simp add: sched_inv_def)
  then show *: "fst (SHABLK0 l n) = fips_W m n"
    using assms byte_swap [of "m ! (4 * n + 3)" "m ! (4 * n + 2)" "m ! (4 * n + 1)" "m ! (4 * n)"]
    by (simp add: SHABLK0_def le32_at_def fips_W.simps [of m n] take4 Let_def)
  have "snd (SHABLK0 l n) = l[n := fst (SHABLK0 l n)]"
    by (simp add: SHABLK0_def Let_def)
  then show "sched_inv m (Suc n) (snd (SHABLK0 l n))"
    using assms * by (auto simp: sched_inv_def nth_list_update)
qed

lemma SHABLK_W:
  assumes "sched_inv m n l" and "16 \<le> n"
  shows "fst (SHABLK l n) = fips_W m n" and "sched_inv m (Suc n) (snd (SHABLK l n))"
proof -
  have W: "t < n \<Longrightarrow> n \<le> t + 16 \<Longrightarrow> l ! (t mod 16) = fips_W m t" for t
    using assms by (simp add: sched_inv_def)
  have idx: "(n + 13) mod 16 = (n - 3) mod 16" "(n + 8) mod 16 = (n - 8) mod 16"
    "(n + 2) mod 16 = (n - 14) mod 16" "n mod 16 = (n - 16) mod 16"
    using assms(2) mod_add_self2 [of "n - 3" 16] mod_add_self2 [of "n - 8" 16]
      mod_add_self2 [of "n - 14" 16] mod_add_self2 [of "n - 16" 16]
    by (simp_all add: add.commute)
  have "fst (SHABLK l n) = ROL32 (l ! ((n - 3) mod 16) XOR l ! ((n - 8) mod 16)
                     XOR l ! ((n - 14) mod 16) XOR l ! ((n - 16) mod 16)) 1"
    by (simp only: SHABLK_def Let_def idx fst_conv)
  also have "\<dots> = fips_W m n"
    using assms(2) by (simp add: W fips_W.simps [of m n])
  finally show *: "fst (SHABLK l n) = fips_W m n" .
  have "snd (SHABLK l n) = l[n mod 16 := fst (SHABLK l n)]"
    by (simp add: SHABLK_def Let_def)
  moreover have "n mod 16 \<noteq> t mod 16" if "t < n" "Suc n \<le> t + 16" for t
    using that nat_dvd_not_less [of "n - t" 16] by (auto simp: mod_eq_dvd_iff_nat)
  ultimately show "sched_inv m (Suc n) (snd (SHABLK l n))"
    using assms * W by (auto simp: sched_inv_def nth_list_update less_Suc_eq)
qed

lemma sha_round_fips:
  assumes "sched_inv m n (snd st)" and "length m = 64"
  shows "fst (sha_round n st) = fips_step m n (fst st)"
    and "sched_inv m (Suc n) (snd (sha_round n st))"
proof -
  obtain a b c d e l where st: "st = ((a, b, c, d, e), l)" by (metis surj_pair)
  obtain w0 l0 where b0: "SHABLK0 l n = (w0, l0)" by (cases "SHABLK0 l n")
  obtain w1 l1 where b1: "SHABLK l n = (w1, l1)" by (cases "SHABLK l n")
  have l: "sched_inv m n l"
    using assms(1) by (simp add: st)
  consider "n < 16" | "16 \<le> n" "n < 20" | "20 \<le> n" "n < 40" | "40 \<le> n" "n < 60" | "60 \<le> n"
    by linarith
  then have "fst (sha_round n st) = fips_step m n (fst st)
      \<and> sched_inv m (Suc n) (snd (sha_round n st))"
    using SHABLK0_W [OF l _ assms(2)] SHABLK_W [OF l]
    by cases (simp_all add: st sha_round_def b0 b1 fips_f_def fips_K_def ch_eq maj_eq add.commute
        add.left_commute)
  then show "fst (sha_round n st) = fips_step m n (fst st)"
    and "sched_inv m (Suc n) (snd (sha_round n st))" by auto
qed

lemma sha_rounds_fips:
  assumes "length m = 64"
  shows "fst (fold sha_round [0..<n] (vs, load_block m)) = fold (fips_step m) [0..<n] vs
       \<and> sched_inv m n (snd (fold sha_round [0..<n] (vs, load_block m)))"
proof (induction n)
  case 0
  then show ?case by (simp add: sched_inv_def load_block_def)
next
  case (Suc n)
  then show ?case
    using sha_round_fips [of m n "fold sha_round [0..<n] (vs, load_block m)"] assms by simp
qed

lemma Transform_state:
  assumes "length m = 64"
  shows "m_state (Transform s m) = fips_compress m (m_state s)"
proof -
  define vs where "vs = (m_state s ! 0, m_state s ! 1, m_state s ! 2, m_state s ! 3, m_state s ! 4)"
  obtain a b c d e l where F: "fold sha_round [0..<80] (vs, load_block m) = ((a, b, c, d, e), l)"
    by (metis surj_pair)
  then have "fold (fips_step m) [0..<80] vs = (a, b, c, d, e)"
    using sha_rounds_fips [OF assms, of 80 vs] by (metis fst_conv)
  with F show ?thesis
    by (simp add: Transform_def fips_compress_def Let_def vs_def del: upt_rec_numeral)
qed

section \<open>Absorbing a message\<close>

text \<open>
  The standard's computation over a message: whole blocks are compressed in order, the rest is
  padded with a one bit, zeros and the length in bits.
\<close>

function absorb :: "u32 list \<Rightarrow> bytes \<Rightarrow> u32 list \<times> bytes" where
  "absorb H m =
     (if length m < 64 then (H, m) else absorb (fips_compress (take 64 m) H) (drop 64 m))"
  by pat_completeness auto
termination
  by (relation "measure (\<lambda>(H, m). length m)") auto

declare absorb.simps [simp del]

definition fips_pad :: "bytes \<Rightarrow> bytes" where
  "fips_pad m = m @ [0x80] @ replicate ((119 - length m mod 64) mod 64) 0
     @ be32 (of_nat (8 * length m div 2 ^ 32)) @ be32 (of_nat (8 * length m))"

definition fips_H0 :: "u32 list" where
  "fips_H0 = [0x67452301, 0xEFCDAB89, 0x98BADCFE, 0x10325476, 0xC3D2E1F0]"

definition fips_sha1 :: "bytes \<Rightarrow> bytes" where
  "fips_sha1 m = concat (map be32 (fst (absorb fips_H0 (fips_pad m))))"

lemma absorb_short [simp]: "length m < 64 \<Longrightarrow> absorb H m = (H, m)"
  by (simp add: absorb.simps)

lemma absorb_rest: "snd (absorb H m) = drop (64 * (length m div 64)) m"
proof (induction H m rule: absorb.induct)
  case (1 H m)
  show ?case
  proof (cases "length m < 64")
    case False
    then obtain k where "length m = 64 + k" by (metis le_add_diff_inverse not_less)
    then show ?thesis
      using 1 False div_add_self1 [of 64 k] by (simp add: absorb.simps [of H m] add.commute)
  qed simp
qed

lemma length_absorb_rest [simp]: "length (snd (absorb H m)) = length m mod 64"
  by (simp add: absorb_rest minus_div_mult_eq_mod [symmetric] mult.commute)

lemma absorb_append:
  "absorb H (m @ d) = absorb (fst (absorb H m)) (snd (absorb H m) @ d)"
proof (induction H m rule: absorb.induct)
  case (1 H m)
  show ?case
  proof (cases "length m < 64")
    case False
    then have "absorb H (m @ d) = absorb (fips_compress (take 64 m) H) (drop 64 m @ d)"
      by (simp add: absorb.simps [of H "m @ d"])
    with False 1 show ?thesis by (simp add: absorb.simps [of H m])
  qed simp
qed

lemma absorb_block:
  "length b = 64 \<Longrightarrow> absorb H (b @ d) = absorb (fips_compress b H) d"
  by (simp add: absorb.simps [of H "b @ d"])

text \<open>
  The state after a message: the chaining value and the bytes of the unfinished block are those
  of the message, and the counters hold its length in bits modulo \<open>2 ^ 64\<close>.
\<close>

definition absorbed :: "CSHA1 \<Rightarrow> bytes \<Rightarrow> bool" where
  "absorbed s m \<longleftrightarrow>
     m_state s = fst (absorb fips_H0 m) \<and>
     length (m_buffer s) = 64 \<and>
     take (length m mod 64) (m_buffer s) = snd (absorb fips_H0 m) \<and>
     m_count0 s = of_nat (8 * length m) \<and>
     m_count1 s = of_nat (8 * length m div 2 ^ 32)"

lemma absorbed_Reset: "length (m_buffer s) = 64 \<Longrightarrow> absorbed (Reset s) []"
  by (simp add: absorbed_def Reset_def fips_H0_def)

lemma div_add_carry:
  assumes "0 < (M :: nat)"
  shows "(a + b) div M = a div M + b div M + (if (a + b) mod M < b mod M then 1 else 0)"
proof -
  have lt: "a mod M < M" "b mod M < M" using assms by simp_all
  have "(a + b) mod M = (if M \<le> a mod M + b mod M then a mod M + b mod M - M else a mod M + b mod M)"
    using add_strict_mono [OF lt] mod_add_eq [of a M b] mod_less [of "a mod M + b mod M - M" M]
    by (cases "M \<le> a mod M + b mod M") (simp_all add: le_mod_geq less_diff_conv2)
  moreover have "(if M \<le> x + y then x + y - M else x + y) < y \<longleftrightarrow> M \<le> x + y" if "x < M" for x y
    using that by auto
  ultimately have "(a + b) mod M < b mod M \<longleftrightarrow> M \<le> a mod M + b mod M"
    using lt(1) by simp
  moreover have "(x + y) div M = (if M \<le> x + y then 1 else 0)" if "x < M" "y < M" for x y
    using that by (auto simp: le_div_geq)
  from this [OF lt] have "(a mod M + b mod M) div M = (if M \<le> a mod M + b mod M then 1 else 0)" .
  ultimately show ?thesis
    by (simp add: div_add1_eq [of a b M])
qed

lemma add_length_count1:
  assumes "m_count0 s = of_nat (8 * n)" and "m_count1 s = of_nat (8 * n div 2 ^ 32)"
    and "l < 2 ^ 32"
  shows "m_count1 (add_length s (of_nat l)) = of_nat (8 * (n + l) div 2 ^ 32)"
proof -
  define a b where "a = 8 * n" and "b = 8 * l"
  have hi: "drop_bit 29 (of_nat l :: u32) = of_nat (b div 2 ^ 32)"
    using assms(3) div_mult_mult1 [of 8 l "2 ^ 29"]
    by (simp add: b_def word_unat_eq_iff unat_of_nat unat_div drop_bit_eq_div)
  have lo: "push_bit 3 (of_nat l :: u32) = of_nat b"
    by (simp add: b_def push_bit_eq_mult)
  have carry: "of_nat a + (of_nat b :: u32) < of_nat b \<longleftrightarrow>
      (a + b) mod 2 ^ 32 < b mod 2 ^ 32"
    unfolding word_less_nat_alt of_nat_add [symmetric] unat_of_nat by simp
  have "m_count1 (add_length s (of_nat l)) = of_nat ((a + b) div 2 ^ 32)"
    unfolding add_length_def Let_def assms(1,2) hi lo a_def [symmetric]
    using div_add_carry [of 4294967296 a b] by (simp add: carry)
  then show ?thesis by (simp add: a_def b_def)
qed

lemma unat_count_pos:
  "unat (drop_bit 3 (of_nat (8 * n) :: u32) AND 0x3F) = n mod 64"
  unfolding count_pos unat_of_nat by (simp add: pos_mod)

lemma update_blocks_absorb:
  assumes "unat i \<le> length d" and "length d < 2 ^ 32 - 64"
  shows "\<exists>s' i'. update_blocks d (of_nat (length d)) s i = Inr (s', i') \<and> unat i' \<le> length d
    \<and> absorb (m_state s) (drop (unat i) d) = (m_state s', drop (unat i') d)
    \<and> length d - unat i' < 64"
  using assms
proof (induction d "of_nat (length d) :: u32" s i rule: update_blocks.induct)
  case (1 d s i)
  have len: "unat (of_nat (length d) :: u32) = length d"
    using 1(3) by (simp add: unat_of_nat)
  have "unat i + 63 < 2 ^ 32" using 1(2,3) by simp
  then have iff: "i + 63 < of_nat (length d) \<longleftrightarrow> unat i + 63 < length d"
    by (simp add: word_less_nat_alt len unat_word_ariths)
  show ?case
  proof (cases "unat i + 63 < length d")
    case True
    then have i64: "unat (i + 64) = unat i + 64" and lt: "unat i + 64 < 2 ^ 32"
      using 1(3) by (simp_all add: unat_word_ariths)
    have cut: "drop (unat i) d = take 64 (drop (unat i) d) @ drop (unat i + 64) d"
      by (metis append_take_drop_id drop_drop add.commute)
    have "absorb (m_state s) (drop (unat i) d)
        = absorb (m_state (Transform s (take 64 (drop (unat i) d)))) (drop (unat i + 64) d)"
      using True by (subst cut) (simp add: absorb_block Transform_state)
    then show ?thesis
      using 1(1) [OF _ _ ] True lt i64 1(3)
      by (simp add: update_blocks.simps [of d _ s i] iff)
  next
    case False
    then show ?thesis
      using 1(2) by (simp add: update_blocks.simps [of d _ s i] iff)
  qed
qed

lemma fill_blocks_absorb:
  assumes "take (unat j) (m_buffer s) = r" and "length (m_buffer s) = 64" and "unat j < 64"
    and "length d < 2 ^ 32 - 64"
  shows "\<exists>s' i j'. fill_blocks s d (of_nat (length d)) j = Inr (s', i, j') \<and> unat i \<le> length d
      \<and> length (m_buffer s') = 64 \<and> unat j' + (length d - unat i) < 64
      \<and> absorb (m_state s) (r @ d) = (m_state s', take (unat j') (m_buffer s') @ drop (unat i) d)"
proof -
  let ?L = "of_nat (length d) :: u32"
  have L: "unat ?L = length d" using assms(4) by (simp add: unat_of_nat)
  have r: "length r = unat j" using assms(1-3) by auto
  have sum: "j + ?L > 63 \<longleftrightarrow> unat j + length d > 63"
    using assms(3,4) by (simp add: word_less_nat_alt unat_word_ariths L)
  show ?thesis
  proof (cases "unat j + length d > 63")
    case True
    have j: "unat (64 - j) = 64 - unat j"
      using assms(3) by (simp add: unat_sub word_le_nat_alt)
    have ge: "64 - unat j \<le> length d" using True by linarith
    let ?b = "r @ take (64 - unat j) d"
    let ?t = "Transform (s\<lparr>m_buffer := ?b\<rparr>) ?b"
    have b: "length ?b = 64" using True assms(3) r by simp
    obtain s' i where u: "update_blocks d ?L ?t (64 - j) = Inr (s', i)" "unat i \<le> length d"
      "absorb (m_state ?t) (drop (64 - unat j) d) = (m_state s', drop (unat i) d)"
      "length d - unat i < 64"
      using update_blocks_absorb [of "64 - j" d ?t] ge assms(4) j by auto
    have "absorb (m_state s) (r @ d) = absorb (m_state s) (?b @ drop (64 - unat j) d)" by simp
    also have "\<dots> = absorb (m_state ?t) (drop (64 - unat j) d)"
      unfolding absorb_block [OF b] by (simp add: Transform_state [OF b])
    finally have "absorb (m_state s) (r @ d) = (m_state s', drop (unat i) d)"
      using u(3) by simp
    moreover have "m_buffer s' = ?b"
      using update_blocks_frame [OF u(1)] by simp
    ultimately show ?thesis
      using True assms(1,2,3) u b
      by (simp add: fill_blocks_def sum j copy_to_buffer_def)
  next
    case False
    then show ?thesis
      using assms(1,2) r by (simp add: fill_blocks_def sum)
  qed
qed

lemma Update_absorbed:
  assumes "absorbed s m" and d: "length d < 2 ^ 32 - 64"
  shows "\<exists>s'. Update s d = Inr s' \<and> absorbed s' (m @ d)"
proof -
  let ?L = "of_nat (length d) :: u32" and ?j = "drop_bit 3 (m_count0 s) AND 0x3F :: u32"
  let ?s = "add_length s ?L" and ?r = "snd (absorb fips_H0 m)"
  have st: "m_state s = fst (absorb fips_H0 m)" "length (m_buffer s) = 64"
    "take (length m mod 64) (m_buffer s) = ?r" "m_count0 s = of_nat (8 * length m)"
    "m_count1 s = of_nat (8 * length m div 2 ^ 32)"
    using assms(1) by (simp_all add: absorbed_def)
  have j: "unat ?j = length m mod 64"
    using unat_count_pos st(4) by simp
  have L: "unat ?L = length d"
    using d by (simp add: unat_of_nat)
  have s: "m_state ?s = m_state s" "m_buffer ?s = m_buffer s"
    by (simp_all add: add_length_def Let_def)
  obtain t i j' where f: "fill_blocks ?s d ?L ?j = Inr (t, i, j')"
    and t: "unat i \<le> length d" "length (m_buffer t) = 64" "unat j' + (length d - unat i) < 64"
      "absorb fips_H0 (m @ d) = (m_state t, take (unat j') (m_buffer t) @ drop (unat i) d)"
    using fill_blocks_absorb [of ?j ?s ?r d] st j s d absorb_append [of fips_H0 m d] by auto
  have sub: "unat (?L - i) = length d - unat i"
    using t(1) L by (simp add: unat_sub word_le_nat_alt)
  define u where "u = (if ?L - i \<noteq> 0 then t\<lparr>m_buffer := take (unat j') (m_buffer t)
      @ drop (unat i) d @ drop (unat j' + (length d - unat i)) (m_buffer t)\<rparr> else t)"
  have U: "Update s d = Inr u"
    using t(1,3) sub by (simp add: Update_def Let_def f u_def copy_to_buffer_def)
  have "length (snd (absorb fips_H0 (m @ d))) = unat j' + (length d - unat i)"
    using t by simp
  then have n: "length (m @ d) mod 64 = unat j' + (length d - unat i)"
    by simp
  have "?L - i = 0 \<Longrightarrow> length d - unat i = 0"
    using sub by simp
  then have "take (length (m @ d) mod 64) (m_buffer u) = snd (absorb fips_H0 (m @ d))"
    using t unfolding n by (simp add: u_def)
  then show ?thesis
    using U t Update_frame(1,2) [OF U] add_length_count1 [OF st(4,5), of "length d"] d st(4)
    by (simp add: absorbed_def u_def push_bit_eq_mult distrib_left)
qed

lemma pad_first: "(120 - Suc n mod 64) mod 64 = (119 - n mod 64) mod (64 :: nat)"
proof -
  have "\<forall>q \<in> set [0..<64].
      (120 - (if Suc q = 64 then 0 else Suc q)) mod 64 = (119 - q) mod (64 :: nat)"
    by code_simp
  moreover have "n mod 64 \<in> set [0..<64]" by simp
  ultimately show ?thesis
    unfolding mod_Suc by blast
qed

lemma pad_zeros_absorbed:
  assumes "absorbed s m"
  shows "\<exists>s'. pad_zeros s = Inr s' \<and> absorbed s' (m @ replicate ((120 - length m mod 64) mod 64) 0)"
  using assms
proof (induction s arbitrary: m rule: pad_zeros.induct)
  case (1 s)
  have "m_count0 s AND 504 = 448 \<longleftrightarrow> length m mod 64 = 56"
    using 1(2) unat_count_pos [of "length m"] by (simp add: absorbed_def count_448 count_pos)
  then consider "m_count0 s AND 504 = 448" "length m mod 64 = 56"
    | "m_count0 s AND 504 \<noteq> 448" "length m mod 64 \<noteq> 56" by blast
  then show ?case
  proof cases
    case 1
    then show ?thesis using \<open>absorbed s m\<close> by (simp add: pad_zeros.simps [of s])
  next
    case 2
    obtain t where t: "Update s [0] = Inr t" "absorbed t (m @ [0])"
      using Update_absorbed [OF \<open>absorbed s m\<close>, of "[0]"] by auto
    have "(120 - length m mod 64) mod 64 = Suc ((120 - length (m @ [0]) mod 64) mod 64)"
      using pad_step [OF 2(2)] by simp
    then show ?thesis
      using 1(1) [OF 2(1) t] t(1) 2(1) by (simp add: pad_zeros.simps [of s])
  qed
qed

lemma Final_fips:
  assumes "absorbed s m"
  shows "\<exists>s'. Final s = Inr s' \<and> m_digest s' = fips_sha1 m"
proof -
  let ?k = "(119 - length m mod 64) mod 64"
  obtain a where a: "Update s [0x80] = Inr a" "absorbed a (m @ [0x80])"
    using Update_absorbed [OF assms, of "[0x80]"] by auto
  have "(120 - length (m @ [0x80]) mod 64) mod 64 = ?k"
    using pad_first [of "length m"] by simp
  then obtain b where b: "pad_zeros a = Inr b" "absorbed b (m @ [0x80] @ replicate ?k 0)"
    using pad_zeros_absorbed [OF a(2)] by auto
  let ?f = "be32 (m_count1 s) @ be32 (m_count0 s)"
  obtain c where c: "Update b ?f = Inr c" "absorbed c ((m @ [0x80] @ replicate ?k 0) @ ?f)"
    using Update_absorbed [OF b(2), of ?f] by auto
  have "(m @ [0x80] @ replicate ?k 0) @ ?f = fips_pad m"
    using assms by (simp add: fips_pad_def absorbed_def)
  then have "m_state c = fst (absorb fips_H0 (fips_pad m))"
    using c(2) by (simp add: absorbed_def)
  then show ?thesis
    using a(1) b(1) c(1) by (simp add: Final_def Let_def fips_sha1_def)
qed

section \<open>Reports\<close>

lemma concat_length_le: "(\<And>x. x \<in> set xs \<Longrightarrow> length (f x) \<le> k) \<Longrightarrow> length (concat (map f xs)) \<le> k * length xs"
  by (induction xs) (force simp: algebra_simps)+

lemma fmt_02X_length [simp]: "length (fmt_02X b) = 2"
  by (simp add: fmt_02X_def)

lemma fmt_u_length: "length (fmt_u b) \<le> 3"
proof -
  have "unat b < 2 ^ LENGTH(8)" by (rule unsigned_less)
  then have "unat b < 1000" "unat b div 100 < 10" by simp_all
  then show ?thesis
    by (simp add: fmt_u_def decimal.simps [of "unat b"] decimal.simps [of "unat b div 10"]
        decimal.simps [of "unat b div 100"] flip: div_mult2_eq)
qed

lemma ReportHash_length:
  assumes "length (m_digest s) = 20"
  shows "length (ReportHash s t) < 84"
proof -
  have "length (tl (m_digest s)) = 19" using assms by simp
  moreover have "length (fmt_u b) < 4" for b using fmt_u_length [of b] by simp
  ultimately show ?thesis
    using concat_length_le [of "tl (m_digest s)" "\<lambda>b. '' '' @ fmt_u b" 4]
      concat_length_le [of "tl (m_digest s)" "\<lambda>b. '' '' @ fmt_02X b" 3]
      concat_length_le [of "tl (m_digest s)" fmt_02X 2]
      fmt_u_length [of "hd (m_digest s)"]
    by (cases t) (simp_all add: Suc_le_eq)
qed

definition fmt_02x :: "byte \<Rightarrow> string" where
  "fmt_02x b = [''0123456789abcdef'' ! (unat b div 16), ''0123456789abcdef'' ! (unat b mod 16)]"

lemma tolower_hex: "n < 16 \<Longrightarrow> tolower (hex_upper n) = ''0123456789abcdef'' ! n"
proof -
  have "\<forall>n \<in> set [0..<16]. tolower (hex_upper n) = ''0123456789abcdef'' ! n" by code_simp
  then show "n < 16 \<Longrightarrow> tolower (hex_upper n) = ''0123456789abcdef'' ! n" by simp
qed

lemma hex_lower_inject:
  assumes "n < 16" and "k < 16" and "''0123456789abcdef'' ! n = ''0123456789abcdef'' ! k"
  shows "n = k"
proof -
  have "distinct ''0123456789abcdef''" by code_simp
  then show ?thesis
    using assms nth_eq_iff_index_eq [of "''0123456789abcdef''" n k] by (simp only: list.size)
qed

lemma byte_nibbles: "unat (b :: byte) div 16 < 16" "unat b mod 16 < 16"
  using unsigned_less [of b, where 'a = nat] by simp_all

lemma tolower_fmt_02X: "map tolower (fmt_02X b) = fmt_02x b"
  by (simp add: fmt_02X_def fmt_02x_def tolower_hex byte_nibbles)

lemma fmt_02x_inject: "fmt_02x a = fmt_02x b \<Longrightarrow> a = b"
proof -
  assume "fmt_02x a = fmt_02x b"
  then have "unat a div 16 = unat b div 16" "unat a mod 16 = unat b mod 16"
    using hex_lower_inject byte_nibbles by (auto simp: fmt_02x_def)
  then have "unat a = unat b" by (metis div_mod_decomp)
  then show "a = b" by (simp add: word_unat_eq_iff)
qed

lemma fmt_02x_length [simp]: "length (fmt_02x b) = 2"
  by (simp add: fmt_02x_def)

lemma concat_fmt_02x_inject:
  "concat (map fmt_02x xs) = concat (map fmt_02x ys) \<Longrightarrow> xs = ys"
proof (induction xs arbitrary: ys)
  case Nil then show ?case by (cases ys) (auto simp: fmt_02x_def)
next
  case (Cons x xs)
  then obtain y zs where ys: "ys = y # zs" by (cases ys) (auto simp: fmt_02x_def)
  have "fmt_02x x = fmt_02x y \<and> concat (map fmt_02x xs) = concat (map fmt_02x zs)"
    using Cons.prems fmt_02x_length by (simp add: ys)
  then show ?case using Cons.IH fmt_02x_inject ys by blast
qed

lemma ReportHashStl_short:
  assumes "length (m_digest s) = 20"
  shows "ReportHashStl s REPORT_HEX_SHORT = Inr (concat (map fmt_02x (m_digest s)))"
proof -
  have "m_digest s \<noteq> []" using assms by auto
  then have "ReportHash s REPORT_HEX_SHORT = concat (map fmt_02X (m_digest s))"
    by (cases "m_digest s") simp_all
  then show ?thesis
    using ReportHash_length [OF assms, of REPORT_HEX_SHORT]
    by (simp add: ReportHashStl_def map_concat comp_def tolower_fmt_02X del: ReportHash.simps)
qed

lemma length_fips_sha1 [simp]: "length (fips_sha1 m) = 20"
proof -
  have "length H = 5 \<Longrightarrow> length (fst (absorb H x)) = 5" for H x
    by (induction H x rule: absorb.induct)
      (subst absorb.simps, simp add: fips_compress_def Let_def split: prod.splits del: upt_rec_numeral)
  from this [of fips_H0] show ?thesis
    by (simp add: fips_sha1_def fips_H0_def length_concat comp_def sum_list_triv)
qed

text \<open>
  The hash of a message given in pieces: a constructed object, which is reset, is fed the pieces
  in order and finished, as the users of the class do.
\<close>

fun update_all :: "CSHA1 \<Rightarrow> bytes list \<Rightarrow> CSHA1 result" where
  "update_all s [] = Inr s"
| "update_all s (d # ds) = ebind (Update s d) (\<lambda>s. update_all s ds)"

lemma update_all_absorbed:
  "absorbed s m \<Longrightarrow> list_all (\<lambda>d. length d < 2 ^ 32 - 64) ds \<Longrightarrow>
     \<exists>s'. update_all s ds = Inr s' \<and> absorbed s' (m @ concat ds)"
proof (induction ds arbitrary: s m)
  case (Cons d ds)
  then obtain t where t: "Update s d = Inr t" "absorbed t (m @ d)"
    using Update_absorbed [of s m d] by auto
  with Cons.IH [OF t(2)] Cons.prems show ?case by simp
qed simp

lemma hash_reads_absorbed:
  "absorbed s m \<Longrightarrow> 0 \<le> n \<Longrightarrow>
     \<exists>s' ok d. hash_reads s n rs = Inr (s', ok) \<and> absorbed s' (m @ d) \<and> (ok \<longleftrightarrow> int (length d) = n)"
proof (induction s n rs arbitrary: m rule: hash_reads.induct)
  case (1 s n)
  then show ?case by (auto intro!: exI [of _ "[]"])
next
  case (2 s n r rs)
  let ?k = "nat (if n > SHA1_MAX_FILE_BUFFER then SHA1_MAX_FILE_BUFFER else n)"
  have k: "?k \<le> 8000" by (auto simp: SHA1_MAX_FILE_BUFFER_def)
  define v where "v = take ?k r"
  have step: "hash_reads s n (r # rs) =
      (if 0 < n then if v = [] then Inr (s, False)
         else ebind (Update s v) (\<lambda>s. hash_reads s (n - int (length v)) rs)
       else Inr (s, n = 0))"
    unfolding v_def by (simp only: hash_reads.simps Let_def)
  show ?case
  proof (cases "0 < n \<and> v \<noteq> []")
    case True
    have "length v < 2 ^ 32 - 64" using k by (simp add: v_def min_less_iff_disj)
    then obtain t where t: "Update s v = Inr t" "absorbed t (m @ v)"
      using Update_absorbed [OF 2(2), of v] by blast
    have "0 \<le> n - int (length v)" using True by (auto simp: v_def SHA1_MAX_FILE_BUFFER_def)
    then obtain s' ok d where "hash_reads t (n - int (length v)) rs = Inr (s', ok)"
      "absorbed s' ((m @ v) @ d)" "ok \<longleftrightarrow> int (length d) = n - int (length v)"
      using 2(1) [OF _ refl v_def _ t(1) t(2)] True by blast
    then have "hash_reads s n (r # rs) = Inr (s', ok)" "absorbed s' (m @ v @ d)"
      "ok \<longleftrightarrow> int (length (v @ d)) = n"
      unfolding step using True t by auto
    then show ?thesis by blast
  next
    case False
    with 2(3) have "hash_reads s n (r # rs) = Inr (s, n = 0)"
      unfolding step by auto
    then show ?thesis using 2(2) by (auto intro!: exI [of _ "[]"])
  qed
qed
text \<open>
  C2: a CSHA1 object that is reset, fed a message in any number of pieces, each shorter than
  \<open>2 ^ 32 - 64\<close> bytes, and finished holds the FIPS 180-1 digest of the whole message; no call
  reads or writes outside its buffers, and the padding loop ends.
\<close>

theorem sha1_correct:
  assumes "length (m_buffer s) = 64" and "list_all (\<lambda>d. length d < 2 ^ 32 - 64) ds"
  shows "\<exists>s'. ebind (update_all (Reset s) ds) Final = Inr s' \<and> GetHash s' = fips_sha1 (concat ds)"
proof -
  obtain t where "update_all (Reset s) ds = Inr t" "absorbed t (concat ds)"
    using update_all_absorbed [OF absorbed_Reset [OF assms(1)] assms(2)] by auto
  then show ?thesis
    using Final_fips [of t "concat ds"] by (auto simp: GetHash_def)
qed

definition sha_object :: CSHA1 where
  "sha_object = \<lparr>m_state = replicate 5 0, m_count0 = 0, m_count1 = 0, m_buffer = replicate 64 0,
     m_digest = replicate 20 0, m_block = replicate 16 0\<rparr>"

theorem sha1_correct_witness:
  "\<exists>s'. ebind (update_all (Reset sha_object) [[0x61, 0x62], [], [0x63]]) Final = Inr s'
     \<and> GetHash s' = fips_sha1 [0x61, 0x62, 0x63]"
  using sha1_correct [of sha_object "[[0x61, 0x62], [], [0x63]]"] by (simp add: sha_object_def)

text \<open>
  C3: the circular 16 word workspace of \<open>Transform\<close> computes the compression function of the
  standard, with its 80 word schedule.
\<close>

theorem Transform_compress:
  assumes "length m = 64"
  shows "m_state (Transform s m) = fips_compress m (m_state s)"
  by (rule Transform_state [OF assms])

theorem Transform_compress_witness:
  "m_state (Transform sha_object (replicate 64 7))
     = fips_compress (replicate 64 7) (m_state sha_object)"
  using Transform_compress [of "replicate 64 7" sha_object] by simp

text \<open>
  C30: no report of a 20 byte digest overflows the 84 character array, and the short hexadecimal
  report has 40 characters and determines the digest.
\<close>

theorem ReportHashStl_report:
  assumes "length (m_digest s) = 20" and "length (m_digest s') = 20"
  shows "(\<exists>r. ReportHashStl s t = Inr r)
    \<and> (\<exists>r. ReportHashStl s REPORT_HEX_SHORT = Inr r \<and> length r = 40)
    \<and> (ReportHashStl s REPORT_HEX_SHORT = ReportHashStl s' REPORT_HEX_SHORT
        \<longleftrightarrow> GetHash s = GetHash s')"
proof (intro conjI)
  show "\<exists>r. ReportHashStl s t = Inr r"
    using ReportHash_length [OF assms(1), of t] by (simp add: ReportHashStl_def)
  show "\<exists>r. ReportHashStl s REPORT_HEX_SHORT = Inr r \<and> length r = 40"
    using assms by (simp add: ReportHashStl_short length_concat comp_def sum_list_triv)
  show "ReportHashStl s REPORT_HEX_SHORT = ReportHashStl s' REPORT_HEX_SHORT
        \<longleftrightarrow> GetHash s = GetHash s'"
    using assms by (auto simp: ReportHashStl_short GetHash_def dest: concat_fmt_02x_inject)
qed

theorem ReportHashStl_report_witness:
  "\<exists>r. ReportHashStl sha_object REPORT_HEX_SHORT = Inr r \<and> length r = 40"
  using ReportHashStl_report [of sha_object sha_object REPORT_DIGIT]
  by (simp add: sha_object_def)
end
