(* ===== verification/Messages.thy ===== *)
theory Messages
  imports Uuid Sha1
begin

text \<open>
  The messages of the wire protocols: assets, the client request and server response with their
  37 byte headers, the authentication handshake and the packets of the intramesh protocol.  A
  message is the byte vectors the C++ object holds; its accessors read them at the offsets of the
  code and fail with \<open>UndefinedBehaviour\<close> where the offset is outside the vector.  The lemmas are
  round trips between the constructors of the sender and the accessors of the receiver, and what
  the receiver's validation accepts.
\<close>

section \<open>Assets\<close>

datatype Asset = Asset (getData: bytes)

definition Asset_getUUID :: "Asset \<Rightarrow> string result" where
  "Asset_getUUID a = read_string (getData a) 0 32"

definition getSize :: "Asset \<Rightarrow> u32 result" where
  "getSize a = numeric_cast_u32 (length (getData a))"

definition isLocal :: "Asset \<Rightarrow> bool result" where
  "isLocal a = ebind (at (getData a) 33) (\<lambda>b. Inr (b = 1))"

definition getType :: "Asset \<Rightarrow> byte result" where
  "getType a = at (getData a) 32"

section \<open>Client requests\<close>

datatype RequestType =
    RT_GET | RT_PUT | RT_PURGE | RT_TEST | RT_MAINT_PURGELOCALS | RT_STATUS_GET
  | RT_STORED_ASSET_IDS_GET | RT_GET_DONTCACHE

fun request_code :: "RequestType \<Rightarrow> byte" where
  "request_code RT_GET = 10"
| "request_code RT_PUT = 11"
| "request_code RT_PURGE = 12"
| "request_code RT_TEST = 13"
| "request_code RT_MAINT_PURGELOCALS = 14"
| "request_code RT_STATUS_GET = 15"
| "request_code RT_STORED_ASSET_IDS_GET = 16"
| "request_code RT_GET_DONTCACHE = 17"

definition request_types :: "RequestType list" where
  "request_types = [RT_GET, RT_PUT, RT_PURGE, RT_TEST, RT_MAINT_PURGELOCALS, RT_STATUS_GET,
     RT_STORED_ASSET_IDS_GET, RT_GET_DONTCACHE]"

record ClientRequestMsg =
  cr_header :: bytes
  cr_data :: "bytes option"

definition HEADER_SIZE :: nat where
  "HEADER_SIZE = 37"

definition DATA_SIZE_MARKER_LOC :: nat where
  "DATA_SIZE_MARKER_LOC = 33"

definition ClientRequestMsg_new :: ClientRequestMsg where
  "ClientRequestMsg_new = \<lparr>cr_header = replicate HEADER_SIZE 0, cr_data = None\<rparr>"

definition ClientRequestMsg_get :: "RequestType \<Rightarrow> string \<Rightarrow> ClientRequestMsg" where
  "ClientRequestMsg_get t uuid =
     \<lparr>cr_header = [request_code t] @ bytes_of_string uuid @ replicate 4 0, cr_data = None\<rparr>"

definition ClientRequestMsg_put :: "Asset \<Rightarrow> ClientRequestMsg result" where
  "ClientRequestMsg_put asset =
     ebind (Asset_getUUID asset) (\<lambda>assetId.
     ebind (getSize asset) (\<lambda>sz.
     ebind (poke32 ([request_code RT_PUT] @ bytes_of_string assetId @ replicate 4 0)
              DATA_SIZE_MARKER_LOC sz) (\<lambda>header.
     Inr \<lparr>cr_header = header, cr_data = Some (getData asset)\<rparr>)))"

definition getDataSize :: "ClientRequestMsg \<Rightarrow> u32 result" where
  "getDataSize m = peek32 (cr_header m) DATA_SIZE_MARKER_LOC"

definition initDataStorageFromHeader :: "ClientRequestMsg \<Rightarrow> ClientRequestMsg result" where
  "initDataStorageFromHeader m =
     ebind (getDataSize m) (\<lambda>n. Inr (m\<lparr>cr_data := Some (replicate (unat n) 0)\<rparr>))"

definition bad_request :: string where
  "bad_request = ''Bad request, invalid header on ClientRequest''"

definition Request_getType :: "ClientRequestMsg \<Rightarrow> RequestType result" where
  "Request_getType m =
     (if length (cr_header m) = 0 \<or> hd (cr_header m) < request_code RT_GET
         \<or> hd (cr_header m) > request_code RT_GET_DONTCACHE
      then Inl (RequestError bad_request)
      else Inr (request_types ! unat (hd (cr_header m) - request_code RT_GET)))"

definition Request_getUUID :: "ClientRequestMsg \<Rightarrow> string result" where
  "Request_getUUID m = read_string (cr_header m) 1 32"

section \<open>Server responses\<close>

datatype ResponseCode = RC_FOUND | RC_NOTFOUND | RC_ERROR | RC_OK

fun response_code :: "ResponseCode \<Rightarrow> byte" where
  "response_code RC_FOUND = 10"
| "response_code RC_NOTFOUND = 11"
| "response_code RC_ERROR = 12"
| "response_code RC_OK = 13"

record ServerResponseMsg =
  sr_data :: "bytes option"
  sr_header :: bytes

definition DATA_LEN_MARKER_LOC :: nat where
  "DATA_LEN_MARKER_LOC = 33"

definition RESPONSE_CODE_MARKER_LOC :: nat where
  "RESPONSE_CODE_MARKER_LOC = 0"

definition setupHeader :: "ResponseCode \<Rightarrow> string \<Rightarrow> u32 \<Rightarrow> bytes result" where
  "setupHeader code assetUUID dataLen =
     poke32 ([response_code code] @ bytes_of_string assetUUID @ replicate 4 0)
       DATA_LEN_MARKER_LOC dataLen"

definition ServerResponseMsg_new :: ServerResponseMsg where
  "ServerResponseMsg_new = \<lparr>sr_data = None, sr_header = replicate HEADER_SIZE 0\<rparr>"

definition ServerResponseMsg_code :: "ResponseCode \<Rightarrow> string \<Rightarrow> ServerResponseMsg result" where
  "ServerResponseMsg_code code assetUUID =
     ebind (setupHeader code assetUUID 0) (\<lambda>h. Inr \<lparr>sr_data = None, sr_header = h\<rparr>)"

definition ServerResponseMsg_data :: "ResponseCode \<Rightarrow> string \<Rightarrow> bytes \<Rightarrow> ServerResponseMsg result" where
  "ServerResponseMsg_data code assetUUID data =
     ebind (numeric_cast_u32 (length data)) (\<lambda>n.
     ebind (setupHeader code assetUUID n) (\<lambda>h. Inr \<lparr>sr_data = Some data, sr_header = h\<rparr>))"

definition ServerResponseMsg_text :: "ResponseCode \<Rightarrow> string \<Rightarrow> string \<Rightarrow> ServerResponseMsg result" where
  "ServerResponseMsg_text code assetUUID message =
     ServerResponseMsg_data code assetUUID (bytes_of_string message)"

definition getResponseCode :: "ServerResponseMsg \<Rightarrow> byte result" where
  "getResponseCode m = at (sr_header m) RESPONSE_CODE_MARKER_LOC"

definition validateHeader :: "ServerResponseMsg \<Rightarrow> bool result" where
  "validateHeader m =
     (if length (sr_header m) \<noteq> HEADER_SIZE then Inr False
      else ebind (getResponseCode m) (\<lambda>c.
        if c < response_code RC_FOUND \<or> c > response_code RC_OK then Inr False else Inr True))"

definition Response_getDataSize :: "ServerResponseMsg \<Rightarrow> u32 result" where
  "Response_getDataSize m = peek32 (sr_header m) DATA_LEN_MARKER_LOC"

definition initializeDataStorage :: "ServerResponseMsg \<Rightarrow> ServerResponseMsg result" where
  "initializeDataStorage m =
     ebind (peek32 (sr_header m) DATA_LEN_MARKER_LOC)
       (\<lambda>n. Inr (m\<lparr>sr_data := Some (replicate (unat n) 0)\<rparr>))"

definition Response_getUUID :: "ServerResponseMsg \<Rightarrow> string result" where
  "Response_getUUID m = read_string (sr_header m) 1 32"

section \<open>The authentication handshake\<close>

definition PHRASE_SIZE :: nat where
  "PHRASE_SIZE = 7"

definition CHALLENGE_SIZE :: nat where
  "CHALLENGE_SIZE = 8"

datatype AuthChallengeMsg = AuthChallengeMsg (ac_data: bytes)

text \<open>
  The outgoing challenge takes its phrase from the random generator, here the sequence of
  numbers it gives.
\<close>

definition generatePhrase :: "(nat \<Rightarrow> byte) \<Rightarrow> bytes" where
  "generatePhrase rand_int = map rand_int [0..<PHRASE_SIZE]"

definition AuthChallengeMsg_new :: "bool \<Rightarrow> (nat \<Rightarrow> byte) \<Rightarrow> AuthChallengeMsg" where
  "AuthChallengeMsg_new inbound rand_int =
     AuthChallengeMsg (if inbound then replicate CHALLENGE_SIZE 0 else [0] @ generatePhrase rand_int)"

definition getPhrase :: "AuthChallengeMsg \<Rightarrow> string result" where
  "getPhrase m = read_string (ac_data m) 1 PHRASE_SIZE"

datatype AuthResponseMsg = AuthResponseMsg (ar_data: bytes)

definition PACKET_IDENTIFIER :: byte where
  "PACKET_IDENTIFIER = 0"

definition SERVER_IDENTIFIER :: byte where
  "SERVER_IDENTIFIER = 100"

definition RESPONSE_SIZE :: nat where
  "RESPONSE_SIZE = 40"

definition AuthResponse_SIZE :: nat where
  "AuthResponse_SIZE = 41"

text \<open>
  The local CSHA1 object of the computation is constructed, hence reset; what its buffers hold
  before does not matter.
\<close>

definition calculateChallengeResponse :: "string \<Rightarrow> string \<Rightarrow> string result" where
  "calculateChallengeResponse phrase password =
     (let correctHash = password @ phrase
      in ebind (numeric_cast_u32 (length correctHash)) (\<lambda>_.
         ebind (Update (Reset sha_object) (bytes_of_string correctHash)) (\<lambda>sha.
         ebind (Final sha) (\<lambda>sha.
         ReportHashStl sha REPORT_HEX_SHORT))))"

definition AuthResponseMsg_new :: AuthResponseMsg where
  "AuthResponseMsg_new = AuthResponseMsg (replicate AuthResponse_SIZE 0)"

definition AuthResponseMsg_server :: "string \<Rightarrow> string \<Rightarrow> AuthResponseMsg result" where
  "AuthResponseMsg_server challenge password =
     ebind (calculateChallengeResponse challenge password)
       (\<lambda>h. Inr (AuthResponseMsg (SERVER_IDENTIFIER # bytes_of_string h)))"

definition getChallengeResponse :: "AuthResponseMsg \<Rightarrow> string result" where
  "getChallengeResponse m = read_string (ar_data m) 1 RESPONSE_SIZE"

definition isServerResponse :: "AuthResponseMsg \<Rightarrow> bool result" where
  "isServerResponse m = ebind (at (ar_data m) 0) (\<lambda>b. Inr (b = SERVER_IDENTIFIER))"

text \<open>The password is the setting \<open>password\<close>.\<close>

definition isValid :: "string \<Rightarrow> AuthResponseMsg \<Rightarrow> AuthChallengeMsg \<Rightarrow> bool result" where
  "isValid password m authChallenge =
     ebind (at (ar_data m) 0) (\<lambda>b.
     if b \<noteq> PACKET_IDENTIFIER \<and> b \<noteq> SERVER_IDENTIFIER then Inr False
     else ebind (getPhrase authChallenge) (\<lambda>phrase.
          ebind (calculateChallengeResponse phrase password) (\<lambda>correctHash.
          ebind (getChallengeResponse m) (\<lambda>r. Inr (correctHash = r)))))"

datatype AuthStatus = AS_AUTH_SUCCESS | AS_AUTH_FAILURE

fun status_code :: "AuthStatus \<Rightarrow> byte" where
  "status_code AS_AUTH_SUCCESS = 0"
| "status_code AS_AUTH_FAILURE = 1"

datatype AuthStatusMsg = AuthStatusMsg (as_data: bytes)

definition STATUS_IDENTIFIER :: byte where
  "STATUS_IDENTIFIER = 1"

definition STATUS_SIZE :: nat where
  "STATUS_SIZE = 2"

definition AuthStatusMsg_inbound :: AuthStatusMsg where
  "AuthStatusMsg_inbound = AuthStatusMsg (replicate STATUS_SIZE 0)"

definition AuthStatusMsg_new :: "AuthStatus \<Rightarrow> AuthStatusMsg" where
  "AuthStatusMsg_new authStatus = AuthStatusMsg [STATUS_IDENTIFIER, status_code authStatus]"

definition getAuthStatus :: "AuthStatusMsg \<Rightarrow> byte result" where
  "getAuthStatus m = at (as_data m) 1"

definition AuthStatus_validate :: "AuthStatusMsg \<Rightarrow> bool result" where
  "AuthStatus_validate m =
     (if length (as_data m) \<noteq> STATUS_SIZE then Inr False
      else ebind (at (as_data m) 0) (\<lambda>i.
        if i \<noteq> STATUS_IDENTIFIER then Inr False
        else ebind (at (as_data m) 1) (\<lambda>c.
          if c \<noteq> status_code AS_AUTH_SUCCESS \<and> c \<noteq> status_code AS_AUTH_FAILURE then Inr False
          else Inr True)))"

section \<open>Packets of the intramesh protocol\<close>

datatype IntraMeshMsg = IntraMeshMsg (im_data: bytes)

definition MESH_QUERY :: byte where "MESH_QUERY = 0"
definition MESH_RESPONSE :: byte where "MESH_RESPONSE = 1"
definition STATUS_HEARTBEAT :: byte where "STATUS_HEARTBEAT = 2"

definition HB_ONLINE :: u32 where "HB_ONLINE = push_bit 0 1"
definition HB_READABLE :: u32 where "HB_READABLE = push_bit 1 1"
definition HB_WRITABLE :: u32 where "HB_WRITABLE = push_bit 2 1"

definition QR_NOTFOUND :: byte where "QR_NOTFOUND = 0"
definition QR_FOUND :: byte where "QR_FOUND = 1"
definition QR_ERROR :: byte where "QR_ERROR = 2"

definition MAX_PACKET :: nat where "MAX_PACKET = 38"
definition MESH_RESPONSE_CODE_LOC :: nat where "MESH_RESPONSE_CODE_LOC = 33"
definition HEARTBEAT_FLAGS_LOC :: nat where "HEARTBEAT_FLAGS_LOC = 1"

text \<open>\<open>std::vector::resize\<close> fills with zeros.\<close>

definition resize :: "nat \<Rightarrow> bytes \<Rightarrow> bytes" where
  "resize n v = take n v @ replicate (n - length v) 0"

definition IntraMeshMsg_new :: IntraMeshMsg where
  "IntraMeshMsg_new = IntraMeshMsg (replicate MAX_PACKET 0)"

definition IntraMeshMsg_query :: "string \<Rightarrow> IntraMeshMsg" where
  "IntraMeshMsg_query assetUUID =
     IntraMeshMsg (resize MAX_PACKET (MESH_QUERY # bytes_of_string assetUUID))"

definition IntraMeshMsg_response :: "string \<Rightarrow> byte \<Rightarrow> IntraMeshMsg" where
  "IntraMeshMsg_response assetUUID result =
     IntraMeshMsg (resize MAX_PACKET (MESH_RESPONSE # bytes_of_string assetUUID @ [result]))"

definition IntraMeshMsg_heartbeat :: "u32 \<Rightarrow> IntraMeshMsg result" where
  "IntraMeshMsg_heartbeat heartBeatMask =
     ebind (poke32 (STATUS_HEARTBEAT # replicate 4 0) HEARTBEAT_FLAGS_LOC heartBeatMask)
       (\<lambda>d. Inr (IntraMeshMsg (resize MAX_PACKET d)))"

definition getRequestType :: "IntraMeshMsg \<Rightarrow> byte result" where
  "getRequestType m = at (im_data m) 0"

definition getQueryResult :: "IntraMeshMsg \<Rightarrow> byte result" where
  "getQueryResult m = at (im_data m) MESH_RESPONSE_CODE_LOC"

definition getHeartbeatFlags :: "IntraMeshMsg \<Rightarrow> u32 result" where
  "getHeartbeatFlags m = peek32 (im_data m) HEARTBEAT_FLAGS_LOC"

definition getAssetUUID :: "IntraMeshMsg \<Rightarrow> string result" where
  "getAssetUUID m = read_string (im_data m) HEARTBEAT_FLAGS_LOC UUID_LEN"

definition IntraMesh_validate :: "IntraMeshMsg \<Rightarrow> bool result" where
  "IntraMesh_validate m =
     ebind (getRequestType m) (\<lambda>t.
     if t = MESH_QUERY \<or> t = MESH_RESPONSE then
       (if length (im_data m) = MAX_PACKET
        then ebind (getAssetUUID m) (\<lambda>u. Inr (IsValidUUID u)) else Inr False)
     else if t = STATUS_HEARTBEAT then Inr (length (im_data m) = MAX_PACKET)
     else Inr False)"

section \<open>Lemmas\<close>

named_theorems layout

declare HEADER_SIZE_def [layout] DATA_SIZE_MARKER_LOC_def [layout] DATA_LEN_MARKER_LOC_def [layout]
  RESPONSE_CODE_MARKER_LOC_def [layout] PHRASE_SIZE_def [layout] CHALLENGE_SIZE_def [layout]
  PACKET_IDENTIFIER_def [layout] SERVER_IDENTIFIER_def [layout] RESPONSE_SIZE_def [layout]
  AuthResponse_SIZE_def [layout] STATUS_IDENTIFIER_def [layout] STATUS_SIZE_def [layout]
  MESH_QUERY_def [layout] MESH_RESPONSE_def [layout] STATUS_HEARTBEAT_def [layout]
  MAX_PACKET_def [layout] MESH_RESPONSE_CODE_LOC_def [layout] HEARTBEAT_FLAGS_LOC_def [layout]
  UUID_LEN_def [layout]

lemma request_code_inject [simp]: "request_code s = request_code t \<longleftrightarrow> s = t"
  by (cases s; cases t) simp_all

lemma Request_getType_code:
  "cr_header m = request_code t # h \<Longrightarrow> Request_getType m = Inr t"
  by (cases t) (simp_all add: Request_getType_def request_types_def)

lemma Request_getType_Inr:
  "Request_getType m = Inr t \<longleftrightarrow> (\<exists>h. cr_header m = request_code t # h)"
proof
  assume ok: "Request_getType m = Inr t"
  obtain b h where h: "cr_header m = b # h"
    using ok by (cases "cr_header m") (auto simp: Request_getType_def)
  from ok h have "10 \<le> b" "b \<le> 17" and t: "t = request_types ! unat (b - 10)"
    by (auto simp: Request_getType_def split: if_splits)
  then have "10 \<le> unat b" "unat b \<le> 17"
    by (simp_all add: word_le_nat_alt)
  then have "unat b \<in> {10, 11, 12, 13, 14, 15, 16, 17}" by auto
  then have "b \<in> {10, 11, 12, 13, 14, 15, 16, 17}"
    by (auto simp: word_unat_eq_iff)
  then have "b = request_code t"
    by (auto simp: t request_types_def)
  then show "\<exists>h. cr_header m = request_code t # h" using h by blast
qed (auto intro: Request_getType_code)

lemma header_poke32:
  assumes "length u = 32"
  shows "poke32 (c # u @ replicate 4 0) 33 n = Inr (c # u @ be32 n)"
  using assms by (simp add: poke32_def)

lemma header_peek32:
  assumes "length u = 32"
  shows "peek32 (c # u @ be32 n) 33 = Inr n"
  using assms by (simp add: peek32_def)

lemma header_uuid:
  assumes "length u = 32"
  shows "read_string (c # bytes_of_string u @ d) 1 32 = Inr u"
  using assms by (simp add: read_string_def)

lemma calculateChallengeResponse_fips:
  assumes "length password + length phrase < 2 ^ 32 - 64"
  shows "calculateChallengeResponse phrase password
           = Inr (concat (map fmt_02x (fips_sha1 (bytes_of_string (password @ phrase)))))"
proof -
  let ?d = "bytes_of_string (password @ phrase)"
  obtain t where t: "Update (Reset sha_object) ?d = Inr t" "absorbed t ([] @ ?d)"
    using Update_absorbed [OF absorbed_Reset [of sha_object], of ?d] assms
    by (auto simp: sha_object_def)
  then obtain f where f: "Final t = Inr f" "m_digest f = fips_sha1 ?d"
    using Final_fips [of t ?d] by auto
  then show ?thesis
    using t assms ReportHashStl_short [of f]
    by (simp add: calculateChallengeResponse_def numeric_cast_u32_def Let_def)
qed


definition hex_sha1 :: "string \<Rightarrow> string" where
  "hex_sha1 s = concat (map fmt_02x (fips_sha1 (bytes_of_string s)))"

lemma length_hex_sha1 [simp]: "length (hex_sha1 s) = 40"
  by (simp add: hex_sha1_def length_concat comp_def sum_list_triv)

lemma hex_sha1_inject: "hex_sha1 s = hex_sha1 t \<longleftrightarrow>
    fips_sha1 (bytes_of_string s) = fips_sha1 (bytes_of_string t)"
  by (auto simp: hex_sha1_def dest: concat_fmt_02x_inject)

lemma calculate_hex:
  "length password + length phrase < 2 ^ 32 - 64 \<Longrightarrow>
     calculateChallengeResponse phrase password = Inr (hex_sha1 (password @ phrase))"
  by (simp add: calculateChallengeResponse_fips hex_sha1_def)

lemma string_of_bytes_eq_iff: "s = string_of_bytes b \<longleftrightarrow> bytes_of_string s = b"
  by (metis bytes_of_string_of_bytes string_of_bytes_of_string)

lemma isValid_run:
  assumes "length password < 2 ^ 32 - 71" and "ar_data m = i # r" and "length r = 40"
    and "ac_data c = j # p" and "length p = 7"
  shows "isValid password m c
    = Inr ((i = 0 \<or> i = 100) \<and> r = bytes_of_string (hex_sha1 (password @ string_of_bytes p)))"
  using assms calculate_hex [of password "string_of_bytes p"]
  by (auto simp: isValid_def at_def getPhrase_def getChallengeResponse_def read_string_def layout
      string_of_bytes_eq_iff)

lemma setupHeader_run:
  "length uuid = 32 \<Longrightarrow>
     setupHeader c uuid n = Inr (response_code c # bytes_of_string uuid @ be32 n)"
  by (simp add: setupHeader_def layout header_poke32)

lemma response_header:
  assumes "length uuid = 32" and "sr_header m = response_code c # bytes_of_string uuid @ be32 n"
  shows "validateHeader m = Inr True" and "getResponseCode m = Inr (response_code c)"
    and "Response_getUUID m = Inr uuid" and "Response_getDataSize m = Inr n"
  using assms header_peek32 [of "bytes_of_string uuid"] header_uuid [of uuid]
  by (cases c; simp add: validateHeader_def getResponseCode_def at_def Response_getUUID_def
      Response_getDataSize_def layout)+

section \<open>Properties\<close>

text \<open>
  C27: a request built by a sender has a 37 byte header from which the receiver reads the type, the
  uuid and the data size it was built with; a put carries the asset's own uuid and exactly its
  bytes, and the data buffer the receiver allocates has their number.
\<close>

theorem request_roundtrip:
  assumes "length uuid = 32" and "32 \<le> length d" and "length d < 2 ^ 32"
  shows "(let m = ClientRequestMsg_get t uuid in
            length (cr_header m) = HEADER_SIZE \<and> Request_getType m = Inr t
            \<and> Request_getUUID m = Inr uuid \<and> getDataSize m = Inr 0)
       \<and> (\<exists>m m'. ClientRequestMsg_put (Asset d) = Inr m \<and> length (cr_header m) = HEADER_SIZE
            \<and> Request_getType m = Inr RT_PUT \<and> Request_getUUID m = Asset_getUUID (Asset d)
            \<and> getDataSize m = Inr (of_nat (length d)) \<and> cr_data m = Some d
            \<and> initDataStorageFromHeader m = Inr m' \<and> cr_data m' = Some (replicate (length d) 0))"
proof -
  let ?u = "string_of_bytes (take 32 d)"
  have u: "Asset_getUUID (Asset d) = Inr ?u" "length ?u = 32"
    using assms by (simp_all add: Asset_getUUID_def read_string_def)
  define m where "m = \<lparr>cr_header = request_code RT_PUT # bytes_of_string ?u
      @ be32 (of_nat (length d)), cr_data = Some d\<rparr>"
  have put: "ClientRequestMsg_put (Asset d) = Inr m"
    using u assms header_poke32 [of "bytes_of_string ?u" "request_code RT_PUT"]
    by (simp add: ClientRequestMsg_put_def getSize_def numeric_cast_u32_def layout m_def)
  have size: "getDataSize m = Inr (of_nat (length d))"
    using u header_peek32 [of "bytes_of_string ?u"] by (simp add: getDataSize_def layout m_def)
  have "Request_getType m = Inr RT_PUT" "Request_getUUID m = Inr ?u"
    "length (cr_header m) = HEADER_SIZE"
    using u header_uuid [of ?u] Request_getType_code [of m RT_PUT] assms(2)
    by (simp_all add: m_def Request_getUUID_def layout)
  moreover have "unat (of_nat (length d) :: u32) = length d"
    using assms by (simp add: unat_of_nat)
  moreover have "be32 0 = replicate 4 (0 :: byte)"
    by (simp add: be32_def numeral_eq_Suc)
  moreover have "Request_getType (ClientRequestMsg_get t uuid) = Inr t"
    by (rule Request_getType_code) (simp add: ClientRequestMsg_get_def)
  ultimately show ?thesis
    using put size u assms header_uuid [of uuid] header_peek32 [of "bytes_of_string uuid" _ 0]
    by (simp add: ClientRequestMsg_get_def Request_getUUID_def getDataSize_def layout Let_def
        initDataStorageFromHeader_def m_def)
qed

theorem request_roundtrip_witness:
  "Request_getUUID (ClientRequestMsg_get RT_PURGE (replicate 32 CHR ''a'')) = Inr (replicate 32 CHR ''a'')
   \<and> (\<exists>m. ClientRequestMsg_put (Asset (replicate 40 97)) = Inr m \<and> getDataSize m = Inr 40)"
  using request_roundtrip [of "replicate 32 CHR ''a''" "replicate 40 97" RT_PURGE]
  by (auto simp: Let_def)

text \<open>
  C28: a response built by the server passes the client's header validation and gives back its
  code, uuid and data size, which is the number of bytes that follow.
\<close>

theorem response_roundtrip:
  assumes "length uuid = 32" and "length d < 2 ^ 32"
  shows "(\<exists>m. ServerResponseMsg_code c uuid = Inr m \<and> validateHeader m = Inr True
            \<and> getResponseCode m = Inr (response_code c) \<and> Response_getUUID m = Inr uuid
            \<and> Response_getDataSize m = Inr 0 \<and> sr_data m = None)
       \<and> (\<exists>m. ServerResponseMsg_data c uuid d = Inr m \<and> validateHeader m = Inr True
            \<and> getResponseCode m = Inr (response_code c) \<and> Response_getUUID m = Inr uuid
            \<and> (\<exists>n. Response_getDataSize m = Inr n \<and> unat n = length d) \<and> sr_data m = Some d)"
proof -
  have "unat (of_nat (length d) :: u32) = length d"
    using assms(2) by (simp add: unat_of_nat)
  then show ?thesis
    using assms response_header [OF assms(1)]
    by (simp add: ServerResponseMsg_code_def ServerResponseMsg_data_def setupHeader_run
        numeric_cast_u32_def)
qed

theorem response_roundtrip_witness:
  "\<exists>m. ServerResponseMsg_data RC_FOUND (replicate 32 CHR ''0'') [1, 2, 3] = Inr m
     \<and> validateHeader m = Inr True"
  using response_roundtrip [of "replicate 32 CHR ''0''" "[1, 2, 3]" RC_FOUND] by auto

text \<open>
  C29: an intramesh packet has 38 bytes and validates at the receiver, for queries and responses
  exactly when the uuid is valid, and the receiver reads back the kind, the uuid, the result and
  the heartbeat flags.
\<close>

theorem intramesh_roundtrip:
  assumes "length uuid = 32"
  shows "(let q = IntraMeshMsg_query uuid in getRequestType q = Inr MESH_QUERY
            \<and> getAssetUUID q = Inr uuid \<and> IntraMesh_validate q = Inr (IsValidUUID uuid)
            \<and> length (im_data q) = MAX_PACKET)
       \<and> (let r = IntraMeshMsg_response uuid qr in getRequestType r = Inr MESH_RESPONSE
            \<and> getAssetUUID r = Inr uuid \<and> getQueryResult r = Inr qr
            \<and> IntraMesh_validate r = Inr (IsValidUUID uuid) \<and> length (im_data r) = MAX_PACKET)
       \<and> (\<exists>h. IntraMeshMsg_heartbeat flags = Inr h \<and> getRequestType h = Inr STATUS_HEARTBEAT
            \<and> getHeartbeatFlags h = Inr flags \<and> IntraMesh_validate h = Inr True
            \<and> length (im_data h) = MAX_PACKET)"
proof -
  have "IntraMeshMsg_query uuid = IntraMeshMsg (MESH_QUERY # bytes_of_string uuid @ replicate 5 0)"
    and "IntraMeshMsg_response uuid qr
      = IntraMeshMsg (MESH_RESPONSE # bytes_of_string uuid @ qr # replicate 4 0)"
    and "IntraMeshMsg_heartbeat flags
      = Inr (IntraMeshMsg (STATUS_HEARTBEAT # be32 flags @ replicate 33 0))"
    using assms by (simp_all add: IntraMeshMsg_query_def IntraMeshMsg_response_def
        IntraMeshMsg_heartbeat_def resize_def layout poke32_def)
  then show ?thesis
    using assms header_uuid [OF assms]
    by (simp add: getRequestType_def getAssetUUID_def getQueryResult_def getHeartbeatFlags_def
        IntraMesh_validate_def at_def layout peek32_def nth_append)
qed

theorem intramesh_roundtrip_witness:
  "IntraMesh_validate (IntraMeshMsg_query (replicate 32 CHR ''a''))
     = Inr (IsValidUUID (replicate 32 CHR ''a''))"
  using intramesh_roundtrip [of "replicate 32 CHR ''a''" QR_FOUND HB_ONLINE] by (simp add: Let_def)

text \<open>
  C25: against a 41 byte response the server's check reads nothing out of bounds and accepts
  exactly when the identifier is that of a client or a server and the rest is the lower case
  hexadecimal SHA-1 of the password followed by the challenge phrase that was sent.
\<close>

theorem auth_exact:
  assumes "length password < 2 ^ 32 - 71" and "length (ar_data m) = AuthResponse_SIZE"
    and "length (ac_data c) = CHALLENGE_SIZE"
  shows "isValid password m c
    = Inr ((hd (ar_data m) = PACKET_IDENTIFIER \<or> hd (ar_data m) = SERVER_IDENTIFIER)
           \<and> tl (ar_data m) = bytes_of_string
               (hex_sha1 (password @ string_of_bytes (tl (ac_data c)))))"
proof -
  obtain i r j p where "ar_data m = i # r" "length r = 40" "ac_data c = j # p" "length p = 7"
    using assms(2,3) by (cases "ar_data m"; cases "ac_data c") (auto simp: layout)
  then show ?thesis
    using isValid_run [OF assms(1), of m i r c j p] by (simp add: layout)
qed

theorem auth_exact_witness:
  "isValid ''secret'' (AuthResponseMsg (replicate 41 7)) (AuthChallengeMsg (replicate 8 48)) = Inr False"
  using auth_exact [of "''secret''" "AuthResponseMsg (replicate 41 7)" "AuthChallengeMsg (replicate 8 48)"]
  by (simp add: layout)

text \<open>
  C26: the response a server computes for a challenge is accepted by a peer with the same password;
  with another password it is accepted only if the two inputs have the same SHA-1 digest.
\<close>

theorem auth_handshake:
  assumes "length password < 2 ^ 32 - 71" and "length other < 2 ^ 32 - 71"
    and "c = AuthChallengeMsg_new False rand_int"
  shows "\<exists>phrase m. getPhrase c = Inr phrase \<and> AuthResponseMsg_server phrase other = Inr m
    \<and> isServerResponse m = Inr True
    \<and> isValid password m c = Inr (fips_sha1 (bytes_of_string (password @ phrase))
                                  = fips_sha1 (bytes_of_string (other @ phrase)))"
proof -
  let ?p = "string_of_bytes (generatePhrase rand_int)"
  let ?m = "AuthResponseMsg (SERVER_IDENTIFIER # bytes_of_string (hex_sha1 (other @ ?p)))"
  have n: "length (generatePhrase rand_int) = 7"
    by (simp add: generatePhrase_def layout)
  then have phrase: "getPhrase c = Inr ?p"
    by (simp add: assms(3) AuthChallengeMsg_new_def getPhrase_def read_string_def layout)
  moreover have "AuthResponseMsg_server ?p other = Inr ?m"
    using calculate_hex [of other ?p] assms(2) n by (simp add: AuthResponseMsg_server_def)
  moreover have "isValid password ?m c = Inr (hex_sha1 (password @ ?p) = hex_sha1 (other @ ?p))"
    using isValid_run [OF assms(1), of ?m "SERVER_IDENTIFIER"] n
    by (auto simp: assms(3) AuthChallengeMsg_new_def layout)
  ultimately show ?thesis
    by (simp add: isServerResponse_def at_def hex_sha1_inject)
qed

theorem auth_handshake_witness:
  "\<exists>phrase m. getPhrase (AuthChallengeMsg_new False (\<lambda>_. 65)) = Inr phrase
     \<and> AuthResponseMsg_server phrase ''pw'' = Inr m
     \<and> isValid ''pw'' m (AuthChallengeMsg_new False (\<lambda>_. 65)) = Inr True"
  using auth_handshake [of "''pw''" "''pw''" "AuthChallengeMsg_new False (\<lambda>_. 65)" "\<lambda>_. 65"] by auto
end
