(* ===== verification/LruCache.thy ===== *)
theory LruCache
  imports Messages
begin

text \<open>
  The template LRUCache of \<open>lru_cache.h\<close> with its two size calculators.  The list of the C++ class
  is a list of nodes with an identity, so that the index maps a key to a node as it maps a key to
  an iterator; using an iterator whose node is gone is \<open>UndefinedBehaviour\<close>.  The lemmas are
  proved once for every calculator that adds and subtracts a weight, and the cache is shown to
  implement a list of bindings in order of use that is trimmed at its end.
\<close>

section \<open>Size calculators\<close>

record 'd SizeCalculator =
  on_add :: "'d \<Rightarrow> u64 \<Rightarrow> u64 result"
  on_remove :: "'d \<Rightarrow> u64 \<Rightarrow> u64 result"

definition EntryCountCalculator :: "'d SizeCalculator" where
  "EntryCountCalculator = \<lparr>on_add = (\<lambda>item n. Inr (n + 1)), on_remove = (\<lambda>item n. Inr (n - 1))\<rparr>"

definition TOTAL_OVERHEAD :: u32 where
  "TOTAL_OVERHEAD = 32 + 8"

text \<open>\<open>getSize() + TOTAL_OVERHEAD\<close> is computed in 32 bits and widened to 64.\<close>

definition AssetSizeCalculator :: "Asset SizeCalculator" where
  "AssetSizeCalculator =
     \<lparr>on_add = (\<lambda>item n. ebind (getSize item) (\<lambda>sz. Inr (n + ucast (sz + TOTAL_OVERHEAD)))),
      on_remove = (\<lambda>item n. ebind (getSize item) (\<lambda>sz. Inr (n - ucast (sz + TOTAL_OVERHEAD))))\<rparr>"

section \<open>The cache\<close>

record ('k, 'd) LRUCache =
  lru_list :: "(nat \<times> 'k \<times> 'd) list"
  lru_index :: "'k \<Rightarrow> nat option"
  lru_fresh :: nat
  lru_max_size :: u64
  lru_size :: u64

definition LRUCache_new :: "u64 \<Rightarrow> ('k, 'd) LRUCache" where
  "LRUCache_new Size = \<lparr>lru_list = [], lru_index = (\<lambda>_. None), lru_fresh = 0, lru_max_size = Size,
     lru_size = 0\<rparr>"

definition lru_length :: "('k, 'd) LRUCache \<Rightarrow> nat" where
  "lru_length s = length (lru_list s)"

definition lru_clear :: "('k, 'd) LRUCache \<Rightarrow> ('k, 'd) LRUCache" where
  "lru_clear s = s\<lparr>lru_list := [], lru_index := (\<lambda>_. None), lru_size := 0\<rparr>"

definition lru_exists :: "('k, 'd) LRUCache \<Rightarrow> 'k \<Rightarrow> bool" where
  "lru_exists s key = (lru_index s key \<noteq> None)"

definition erase :: "nat \<Rightarrow> (nat \<times> 'a) list \<Rightarrow> (nat \<times> 'a) list" where
  "erase n l = filter (\<lambda>x. fst x \<noteq> n) l"

text \<open>Reading through an iterator.\<close>

definition deref :: "('k, 'd) LRUCache \<Rightarrow> nat \<Rightarrow> ('k \<times> 'd) result" where
  "deref s n = (case map_of (lru_list s) n of None \<Rightarrow> Inl UndefinedBehaviour | Some x \<Rightarrow> Inr x)"

definition touch_key :: "('k, 'd) LRUCache \<Rightarrow> 'k \<Rightarrow> (('k, 'd) LRUCache \<times> nat option) result" where
  "touch_key s key =
     (case lru_index s key of
        None \<Rightarrow> Inr (s, None)
      | Some n \<Rightarrow> ebind (deref s n)
          (\<lambda>x. Inr (s\<lparr>lru_list := (n, x) # erase n (lru_list s)\<rparr>, Some n)))"

text \<open>
  \<open>_remove\<close> of an index position: the key it is stored under and the node it points to.
\<close>

definition remove_at :: "'d SizeCalculator \<Rightarrow> ('k, 'd) LRUCache \<Rightarrow> 'k \<Rightarrow> nat \<Rightarrow> ('k, 'd) LRUCache result" where
  "remove_at c s key n =
     ebind (deref s n) (\<lambda>x.
     ebind (on_remove c (snd x) (lru_size s)) (\<lambda>sz.
     Inr (s\<lparr>lru_size := sz, lru_list := erase n (lru_list s),
            lru_index := (lru_index s)(key := None)\<rparr>)))"

definition remove_key :: "'d SizeCalculator \<Rightarrow> ('k, 'd) LRUCache \<Rightarrow> 'k \<Rightarrow> ('k, 'd) LRUCache result" where
  "remove_key c s key =
     (case lru_index s key of None \<Rightarrow> Inl UndefinedBehaviour | Some n \<Rightarrow> remove_at c s key n)"

definition lru_remove :: "'d SizeCalculator \<Rightarrow> ('k, 'd) LRUCache \<Rightarrow> 'k \<Rightarrow> ('k, 'd) LRUCache result" where
  "lru_remove c s key =
     (case lru_index s key of None \<Rightarrow> Inr s | Some n \<Rightarrow> remove_at c s key n)"

definition lru_touch :: "('k, 'd) LRUCache \<Rightarrow> 'k \<Rightarrow> ('k, 'd) LRUCache result" where
  "lru_touch s key = ebind (touch_key s key) (\<lambda>(s, _). Inr s)"

text \<open>A null pointer is \<open>None\<close>; the parameter \<open>touch\<close> is not read.\<close>

definition fetch_ptr :: "('k, 'd) LRUCache \<Rightarrow> 'k \<Rightarrow> bool \<Rightarrow> (('k, 'd) LRUCache \<times> 'd option) result" where
  "fetch_ptr s key touch =
     (case lru_index s key of
        None \<Rightarrow> Inr (s, None)
      | Some n \<Rightarrow> ebind (touch_key s key) (\<lambda>(s, _). ebind (deref s n) (\<lambda>x. Inr (s, Some (snd x)))))"

text \<open>\<open>Data()\<close>, a null pointer in the uses of the class, is \<open>None\<close>.\<close>

definition fetch :: "('k, 'd) LRUCache \<Rightarrow> 'k \<Rightarrow> bool \<Rightarrow> (('k, 'd) LRUCache \<times> 'd option) result" where
  "fetch s key touch_data =
     (case lru_index s key of
        None \<Rightarrow> Inr (s, None)
      | Some n \<Rightarrow> ebind (deref s n) (\<lambda>x.
          if touch_data then ebind (touch_key s key) (\<lambda>(s, _). Inr (s, Some (snd x)))
          else Inr (s, Some (snd x))))"

lemma remove_key_shrinks:
  "remove_key c s key = Inr s' \<Longrightarrow> length (lru_list s') < length (lru_list s)"
  by (force simp: remove_key_def remove_at_def deref_def erase_def dest: map_of_SomeD
      intro: length_filter_less split: option.splits)

function evict :: "'d SizeCalculator \<Rightarrow> ('k, 'd) LRUCache \<Rightarrow> ('k, 'd) LRUCache result" where
  "evict c s =
     (if lru_size s > lru_max_size s then
        (case rev (lru_list s) of
           [] \<Rightarrow> Inl UndefinedBehaviour
         | x # _ \<Rightarrow> ebind (remove_key c s (fst (snd x))) (evict c))
      else Inr s)"
  by pat_completeness auto
termination
  by (relation "measure (\<lambda>(c, s). length (lru_list s))") (auto dest: remove_key_shrinks)

declare evict.simps [simp del]

definition lru_insert :: "'d SizeCalculator \<Rightarrow> ('k, 'd) LRUCache \<Rightarrow> 'k \<Rightarrow> 'd \<Rightarrow> ('k, 'd) LRUCache result" where
  "lru_insert c s key data =
     ebind (touch_key s key) (\<lambda>(s, miter).
     ebind (case miter of Some n \<Rightarrow> remove_at c s key n | None \<Rightarrow> Inr s) (\<lambda>s.
     let n = lru_fresh s;
         s = s\<lparr>lru_list := (n, key, data) # lru_list s, lru_fresh := Suc n,
               lru_index := (if lru_index s key = None then (lru_index s)(key := Some n)
                             else lru_index s)\<rparr>
     in ebind (on_add c data (lru_size s)) (\<lambda>sz. evict c (s\<lparr>lru_size := sz\<rparr>))))"

definition get_all_keys :: "('k, 'd) LRUCache \<Rightarrow> 'k list" where
  "get_all_keys s = map (\<lambda>x. fst (snd x)) (lru_list s)"

section \<open>The invariant and the abstract cache\<close>

definition bindings :: "('k, 'd) LRUCache \<Rightarrow> ('k \<times> 'd) list" where
  "bindings s = map snd (lru_list s)"

definition total :: "('d \<Rightarrow> u64) \<Rightarrow> ('k \<times> 'd) list \<Rightarrow> u64" where
  "total w xs = sum_list (map (\<lambda>x. w (snd x)) xs)"

definition without :: "'k \<Rightarrow> ('k \<times> 'd) list \<Rightarrow> ('k \<times> 'd) list" where
  "without k xs = filter (\<lambda>x. fst x \<noteq> k) xs"

definition lru_inv :: "('d \<Rightarrow> u64) \<Rightarrow> ('d \<Rightarrow> bool) \<Rightarrow> ('k, 'd) LRUCache \<Rightarrow> bool" where
  "lru_inv w ok s \<longleftrightarrow>
     distinct (map fst (lru_list s)) \<and>
     distinct (map fst (bindings s)) \<and>
     (\<forall>x \<in> set (lru_list s). fst x < lru_fresh s) \<and>
     (\<forall>k n. lru_index s k = Some n \<longleftrightarrow> (\<exists>d. (n, k, d) \<in> set (lru_list s))) \<and>
     (\<forall>x \<in> set (bindings s). ok (snd x)) \<and>
     lru_size s = total w (bindings s)"

function trim :: "('d \<Rightarrow> u64) \<Rightarrow> u64 \<Rightarrow> ('k \<times> 'd) list \<Rightarrow> ('k \<times> 'd) list" where
  "trim w m xs = (if total w xs > m then trim w m (butlast xs) else xs)"
  by pat_completeness auto
termination
proof (relation "measure (\<lambda>(w, m, xs). length xs)")
  fix w :: "'d \<Rightarrow> u64" and m and xs :: "('k \<times> 'd) list" assume "m < total w xs"
  then have "xs \<noteq> []" by (auto simp: total_def)
  then show "((w, m, butlast xs), w, m, xs) \<in> measure (\<lambda>(w, m, xs). length xs)" by simp
qed simp

declare trim.simps [simp del]

lemma lru_invD:
  assumes "lru_inv w ok s"
  shows "distinct (map fst (lru_list s))" and "distinct (map fst (bindings s))"
    and "lru_index s k = Some n \<longleftrightarrow> (\<exists>d. (n, k, d) \<in> set (lru_list s))"
    and "lru_size s = total w (bindings s)"
    and "(k, d) \<in> set (bindings s) \<Longrightarrow> ok d"
  using assms unfolding lru_inv_def by auto

lemma index_None:
  assumes "lru_inv w ok s"
  shows "lru_index s k = None \<longleftrightarrow> k \<notin> fst ` set (bindings s)"
proof -
  have "lru_index s k \<noteq> None \<longleftrightarrow> (\<exists>n d. (n, k, d) \<in> set (lru_list s))"
    using lru_invD(3) [OF assms] by auto
  then show ?thesis by (force simp: bindings_def)
qed

lemma deref_node:
  assumes "lru_inv w ok s" and "(n, x) \<in> set (lru_list s)"
  shows "deref s n = Inr x"
  using assms lru_invD(1) [OF assms(1)] by (simp add: deref_def)

lemma node_unique:
  assumes "lru_inv w ok s" and "(n, k, d) \<in> set (lru_list s)" and "(n', k', d') \<in> set (lru_list s)"
  shows "n = n' \<longleftrightarrow> k = k'"
proof
  assume "n = n'"
  then show "k = k'"
    using assms eq_key_imp_eq_value [OF lru_invD(1) [OF assms(1)]] by fastforce
next
  assume "k = k'"
  then have "lru_index s k = Some n" "lru_index s k = Some n'"
    using assms lru_invD(3) [OF assms(1)] by blast+
  then show "n = n'" by simp
qed

lemma erase_node:
  assumes "lru_inv w ok s" and "(n, k, d) \<in> set (lru_list s)"
  shows "map snd (erase n (lru_list s)) = without k (bindings s)"
proof -
  have "filter (\<lambda>x. fst x \<noteq> n) (lru_list s) = filter (\<lambda>x. fst (snd x) \<noteq> k) (lru_list s)"
    using node_unique [OF assms] by (intro filter_cong) force+
  then show ?thesis
    by (simp add: erase_def without_def bindings_def filter_map comp_def)
qed

lemma without_absent [simp]: "k \<notin> fst ` set xs \<Longrightarrow> without k xs = xs"
  unfolding without_def by (rule filter_True) auto

lemma set_without [simp]: "set (without k xs) = {x \<in> set xs. fst x \<noteq> k}"
  by (auto simp: without_def)

lemma distinct_without: "distinct (map fst xs) \<Longrightarrow> distinct (map fst (without k xs))"
  by (simp add: without_def distinct_map_filter)

lemma total_without:
  "distinct (map fst xs) \<Longrightarrow> (k, d) \<in> set xs \<Longrightarrow> total w (without k xs) = total w xs - w d"
proof (induction xs)
  case (Cons x xs)
  show ?case
  proof (cases "x = (k, d)")
    case True
    with Cons.prems have "without k xs = xs" by (intro without_absent) auto
    then show ?thesis by (simp add: True total_def without_def)
  next
    case False
    with Cons.prems have kd: "(k, d) \<in> set xs" by auto
    then have "k \<in> fst ` set xs" by force
    with Cons.prems(1) kd have "(k, d) \<in> set xs" "fst x \<noteq> k" by auto
    with Cons show ?thesis by (simp add: total_def without_def)
  qed
qed simp

lemma without_last:
  assumes "distinct (map fst xs)" and "xs \<noteq> []"
  shows "without (fst (last xs)) xs = butlast xs"
proof -
  obtain ys y where xs: "xs = ys @ [y]" using assms(2) by (cases xs rule: rev_cases) auto
  then have "fst y \<notin> fst ` set ys" using assms(1) by auto
  then have "without (fst y) ys = ys" by (rule without_absent)
  then show ?thesis by (simp add: xs without_def)
qed

text \<open>The operations on a list of bindings, the most recently used first.\<close>

definition promote :: "'k \<Rightarrow> ('k \<times> 'd) list \<Rightarrow> ('k \<times> 'd) list" where
  "promote k xs = (case map_of xs k of None \<Rightarrow> xs | Some d \<Rightarrow> (k, d) # without k xs)"

lemma promote_absent [simp]: "k \<notin> fst ` set xs \<Longrightarrow> promote k xs = xs"
  unfolding map_of_eq_None_iff [symmetric] by (simp add: promote_def)

datatype ('k, 'd) lru_op =
    Insert 'k 'd | Remove 'k | Touch 'k | Fetch 'k bool | FetchPtr 'k bool | Clear

fun spec_step :: "('d \<Rightarrow> u64) \<Rightarrow> u64 \<Rightarrow> ('k \<times> 'd) list \<Rightarrow> ('k, 'd) lru_op \<Rightarrow> ('k \<times> 'd) list" where
  "spec_step w m xs (Insert k d) = trim w m ((k, d) # without k xs)"
| "spec_step w m xs (Remove k) = without k xs"
| "spec_step w m xs (Touch k) = promote k xs"
| "spec_step w m xs (Fetch k t) = (if t then promote k xs else xs)"
| "spec_step w m xs (FetchPtr k t) = promote k xs"
| "spec_step w m xs Clear = []"

fun lru_step :: "'d SizeCalculator \<Rightarrow> ('k, 'd) LRUCache \<Rightarrow> ('k, 'd) lru_op \<Rightarrow> ('k, 'd) LRUCache result" where
  "lru_step c s (Insert k d) = lru_insert c s k d"
| "lru_step c s (Remove k) = lru_remove c s k"
| "lru_step c s (Touch k) = lru_touch s k"
| "lru_step c s (Fetch k t) = ebind (fetch s k t) (\<lambda>(s, _). Inr s)"
| "lru_step c s (FetchPtr k t) = ebind (fetch_ptr s k t) (\<lambda>(s, _). Inr s)"
| "lru_step c s Clear = Inr (lru_clear s)"

fun lru_run :: "'d SizeCalculator \<Rightarrow> ('k, 'd) LRUCache \<Rightarrow> ('k, 'd) lru_op list \<Rightarrow> ('k, 'd) LRUCache result" where
  "lru_run c s [] = Inr s"
| "lru_run c s (x # xs) = ebind (lru_step c s x) (\<lambda>s. lru_run c s xs)"

fun op_ok :: "('d \<Rightarrow> bool) \<Rightarrow> ('k, 'd) lru_op \<Rightarrow> bool" where
  "op_ok ok (Insert k d) = ok d"
| "op_ok ok _ = True"

section \<open>Operations for a weighing calculator\<close>

text \<open>
  What the cache relies on: for the data it is given, adding and removing an entry changes the
  calculator's value by a weight that depends on the entry alone.
\<close>

locale size_calculator =
  fixes c :: "'d SizeCalculator" and weight :: "'d \<Rightarrow> u64" and ok :: "'d \<Rightarrow> bool"
  assumes add_weight: "ok d \<Longrightarrow> on_add c d n = Inr (n + weight d)"
    and remove_weight: "ok d \<Longrightarrow> on_remove c d n = Inr (n - weight d)"
begin

lemma touch_sim:
  assumes "lru_inv weight ok s"
  shows "\<exists>s'. touch_key s k = Inr (s', lru_index s k) \<and> lru_inv weight ok s'
    \<and> lru_max_size s' = lru_max_size s \<and> lru_index s' = lru_index s
    \<and> bindings s' = promote k (bindings s)"
proof (cases "lru_index s k")
  case None
  then have "map_of (bindings s) k = None"
    using index_None [OF assms] by (simp add: map_of_eq_None_iff)
  with None assms show ?thesis by (simp add: touch_key_def promote_def)
next
  case (Some n)
  then obtain d where d: "(n, k, d) \<in> set (lru_list s)"
    using lru_invD(3) [OF assms] by blast
  let ?s = "s\<lparr>lru_list := (n, k, d) # erase n (lru_list s)\<rparr>"
  have kd: "(k, d) \<in> set (bindings s)" using d by (force simp: bindings_def)
  have run: "touch_key s k = Inr (?s, Some n)"
    using Some deref_node [OF assms d] by (simp add: touch_key_def)
  have b: "bindings ?s = (k, d) # without k (bindings s)"
    using erase_node [OF assms d] by (simp add: bindings_def)
  have mo: "map_of (bindings s) k = Some d"
    using kd lru_invD(2) [OF assms] by simp
  have same: "x = (n, k, d)" if "x \<in> set (lru_list s)" "fst x = n" for x
    using eq_key_imp_eq_value [OF lru_invD(1) [OF assms], of n "snd x" "(k, d)"] that d
    by (cases x) simp
  have set: "set (lru_list ?s) = set (lru_list s)"
  proof (rule set_eqI)
    show "x \<in> set (lru_list ?s) \<longleftrightarrow> x \<in> set (lru_list s)" for x
      using d same [of x] by (cases "fst x = n") (auto simp: erase_def)
  qed
  have dist: "distinct (map fst (lru_list ?s))"
    using lru_invD(1) [OF assms] by (auto simp: erase_def distinct_map_filter)
  have "total weight (bindings ?s) = total weight (bindings s)"
    using total_without [OF lru_invD(2) [OF assms] kd, of weight] unfolding b by (simp add: total_def)
  moreover have "distinct (map fst (bindings ?s))"
    unfolding b using distinct_without [OF lru_invD(2) [OF assms]] by auto
  moreover have "set (bindings ?s) = set (bindings s)"
    unfolding bindings_def set_map set ..
  ultimately have "lru_inv weight ok ?s"
    using assms set dist unfolding lru_inv_def by simp
  then show ?thesis using run b mo Some by (simp add: promote_def)
qed

lemma remove_sim:
  assumes "lru_inv weight ok s" and "lru_index s k = Some n"
  shows "\<exists>s'. remove_at c s k n = Inr s' \<and> lru_inv weight ok s'
    \<and> lru_max_size s' = lru_max_size s \<and> lru_index s' k = None
    \<and> bindings s' = without k (bindings s)"
proof -
  obtain d where d: "(n, k, d) \<in> set (lru_list s)"
    using assms lru_invD(3) [OF assms(1)] by blast
  then have kd: "(k, d) \<in> set (bindings s)" by (force simp: bindings_def)
  let ?s = "s\<lparr>lru_size := lru_size s - weight d, lru_list := erase n (lru_list s),
            lru_index := (lru_index s)(k := None)\<rparr>"
  have run: "remove_at c s k n = Inr ?s"
    using deref_node [OF assms(1) d] remove_weight lru_invD(5) [OF assms(1) kd]
    by (simp add: remove_at_def)
  have b: "bindings ?s = without k (bindings s)"
    using erase_node [OF assms(1) d] by (simp add: bindings_def)
  have idx: "((lru_index s)(k := None)) j = Some i \<longleftrightarrow> (\<exists>d. (i, j, d) \<in> set (erase n (lru_list s)))" for i j
    using lru_invD(3) [OF assms(1), of j i] node_unique [OF assms(1) d, of i j]
    by (auto simp: erase_def)
  have "lru_inv weight ok ?s"
    using assms(1) idx distinct_without [OF lru_invD(2) [OF assms(1)], of k]
      total_without [OF lru_invD(2) [OF assms(1)] kd, of weight] b
    unfolding lru_inv_def by (auto simp: erase_def distinct_map_filter)
  then show ?thesis using run b by simp
qed

lemma evict_sim:
  "lru_inv weight ok s \<Longrightarrow>
    \<exists>s'. evict c s = Inr s' \<and> lru_inv weight ok s' \<and> lru_max_size s' = lru_max_size s
      \<and> bindings s' = trim weight (lru_max_size s) (bindings s)"
proof (induction "length (lru_list s)" arbitrary: s rule: less_induct)
  case less
  note inv = less.prems
  show ?case
  proof (cases "lru_size s > lru_max_size s")
    case True
    then have "bindings s \<noteq> []"
      using lru_invD(4) [OF inv] by (auto simp: total_def)
    then have ne: "lru_list s \<noteq> []" by (simp add: bindings_def)
    obtain n k d where l: "last (lru_list s) = (n, k, d)" by (metis surj_pair)
    have "(n, k, d) \<in> set (lru_list s)" using ne l last_in_set by metis
    then have idx: "lru_index s k = Some n" using lru_invD(3) [OF inv] by blast
    obtain t where t: "remove_at c s k n = Inr t" "lru_inv weight ok t"
      "lru_max_size t = lru_max_size s" "bindings t = without k (bindings s)"
      using remove_sim [OF inv idx] by blast
    have rk: "remove_key c s k = Inr t" using t idx by (simp add: remove_key_def)
    have "without k (bindings s) = butlast (bindings s)"
      using without_last [OF lru_invD(2) [OF inv] \<open>bindings s \<noteq> []\<close>] ne l
      by (simp add: bindings_def last_map)
    moreover obtain ys where "rev (lru_list s) = (n, k, d) # ys"
      using ne l by (metis hd_rev list.collapse rev_is_Nil_conv)
    ultimately show ?thesis
      using less.hyps [OF remove_key_shrinks [OF rk] t(2)] rk True t(3,4) lru_invD(4) [OF inv]
      by (simp add: evict.simps [of c s] trim.simps [of _ _ "bindings s"])
  next
    case False
    then show ?thesis
      using inv lru_invD(4) [OF inv]
      by (simp add: evict.simps [of c s] trim.simps [of _ _ "bindings s"])
  qed
qed


lemma push_inv:
  assumes "lru_inv weight ok s" and "lru_index s k = None" and "ok d"
  shows "lru_inv weight ok (s\<lparr>lru_list := (lru_fresh s, k, d) # lru_list s,
      lru_fresh := Suc (lru_fresh s), lru_index := (lru_index s)(k \<mapsto> lru_fresh s),
      lru_size := lru_size s + weight d\<rparr>)"
proof -
  have k: "k \<notin> fst ` set (bindings s)" using index_None [OF assms(1)] assms(2) by simp
  have fresh: "fst x < lru_fresh s" if "x \<in> set (lru_list s)" for x
    using assms(1) that unfolding lru_inv_def by blast
  have nf: "(lru_fresh s, x) \<notin> set (lru_list s)" for x
    using fresh [of "(lru_fresh s, x)"] by auto
  have idx: "((lru_index s)(k \<mapsto> lru_fresh s)) j = Some i \<longleftrightarrow>
      (\<exists>e. (i, j, e) = (lru_fresh s, k, d) \<or> (i, j, e) \<in> set (lru_list s))" for i j
    using lru_invD(3) [OF assms(1), of j i] k by (auto simp: bindings_def image_iff)
  show ?thesis
    using assms(1,3) k idx fresh nf
    unfolding lru_inv_def by (auto simp: bindings_def total_def less_Suc_eq)
qed

lemma insert_sim:
  assumes "lru_inv weight ok s" and "ok d"
  shows "\<exists>s'. lru_insert c s k d = Inr s' \<and> lru_inv weight ok s' \<and> lru_max_size s' = lru_max_size s
    \<and> bindings s' = trim weight (lru_max_size s) ((k, d) # without k (bindings s))"
proof -
  obtain t where t: "touch_key s k = Inr (t, lru_index s k)" "lru_inv weight ok t"
    "lru_max_size t = lru_max_size s" "lru_index t = lru_index s" "bindings t = promote k (bindings s)"
    using touch_sim [OF assms(1)] by blast
  have wp: "without k (promote k xs) = without k xs" for xs :: "('a \<times> 'd) list"
    by (auto simp: promote_def without_def split: option.splits)
  obtain u where u: "(case lru_index s k of Some n \<Rightarrow> remove_at c t k n | None \<Rightarrow> Inr t) = Inr u"
    "lru_inv weight ok u" "lru_max_size u = lru_max_size s" "lru_index u k = None"
    "bindings u = without k (bindings s)"
  proof (cases "lru_index s k")
    case None
    then have "bindings t = without k (bindings s)"
      using index_None [OF assms(1)] t(5) by simp
    then show ?thesis using None t that by simp
  next
    case (Some n)
    then show ?thesis
      using remove_sim [OF t(2), of k n] t that wp by auto
  qed
  let ?v = "u\<lparr>lru_list := (lru_fresh u, k, d) # lru_list u, lru_fresh := Suc (lru_fresh u),
      lru_index := (lru_index u)(k \<mapsto> lru_fresh u), lru_size := lru_size u + weight d\<rparr>"
  have "lru_insert c s k d = evict c ?v"
    using t(1) u(1,4) add_weight [OF assms(2)] by (simp add: lru_insert_def Let_def)
  moreover have "bindings ?v = (k, d) # without k (bindings s)"
    using u(5) by (simp add: bindings_def)
  ultimately show ?thesis
    using evict_sim [OF push_inv [OF u(2,4) assms(2)]] u(3) by simp
qed

lemma fetch_sim:
  assumes "lru_inv weight ok s"
  shows "\<exists>s'. fetch s k t = Inr (s', map_of (bindings s) k) \<and> lru_inv weight ok s'
    \<and> lru_max_size s' = lru_max_size s
    \<and> bindings s' = (if t then promote k (bindings s) else bindings s)"
    and "\<exists>s'. fetch_ptr s k t = Inr (s', map_of (bindings s) k) \<and> lru_inv weight ok s'
    \<and> lru_max_size s' = lru_max_size s \<and> bindings s' = promote k (bindings s)"
proof -
  obtain u where u: "touch_key s k = Inr (u, lru_index s k)" "lru_inv weight ok u"
    "lru_max_size u = lru_max_size s" "lru_index u = lru_index s" "bindings u = promote k (bindings s)"
    using touch_sim [OF assms] by blast
  have none: "lru_index s k = None \<Longrightarrow> map_of (bindings s) k = None \<and> promote k (bindings s) = bindings s"
    using index_None [OF assms] by (simp add: map_of_eq_None_iff)
  have some: "\<exists>d. deref s n = Inr (k, d) \<and> deref u n = Inr (k, d) \<and> map_of (bindings s) k = Some d"
    if i: "lru_index s k = Some n" for n
  proof -
    obtain d where d: "(n, k, d) \<in> set (lru_list s)"
      using i lru_invD(3) [OF assms] by blast
    then have "(k, d) \<in> set (bindings s)" by (force simp: bindings_def)
    then have m: "map_of (bindings s) k = Some d" using lru_invD(2) [OF assms] by simp
    obtain e where e: "(n, k, e) \<in> set (lru_list u)"
      using i u(4) lru_invD(3) [OF u(2), of k n] by auto
    then have "(k, e) \<in> set (bindings u)" by (force simp: bindings_def)
    then have "e = d" using m u(5) by (auto simp: promote_def)
    then show ?thesis using m d e deref_node [OF assms] deref_node [OF u(2)] by blast
  qed
  have "(\<exists>s'. fetch s k t = Inr (s', map_of (bindings s) k) \<and> lru_inv weight ok s'
      \<and> lru_max_size s' = lru_max_size s
      \<and> bindings s' = (if t then promote k (bindings s) else bindings s))
    \<and> (\<exists>s'. fetch_ptr s k t = Inr (s', map_of (bindings s) k) \<and> lru_inv weight ok s'
      \<and> lru_max_size s' = lru_max_size s \<and> bindings s' = promote k (bindings s))"
  proof (cases "lru_index s k")
    case None
    then show ?thesis using none assms by (simp add: fetch_def fetch_ptr_def)
  next
    case (Some n)
    then obtain d where "deref s n = Inr (k, d)" "deref u n = Inr (k, d)"
      "map_of (bindings s) k = Some d" using some by blast
    then show ?thesis using Some u assms by (simp add: fetch_def fetch_ptr_def)
  qed
  then show "\<exists>s'. fetch s k t = Inr (s', map_of (bindings s) k) \<and> lru_inv weight ok s'
    \<and> lru_max_size s' = lru_max_size s
    \<and> bindings s' = (if t then promote k (bindings s) else bindings s)"
    and "\<exists>s'. fetch_ptr s k t = Inr (s', map_of (bindings s) k) \<and> lru_inv weight ok s'
    \<and> lru_max_size s' = lru_max_size s \<and> bindings s' = promote k (bindings s)" by blast+
qed

lemma step_sim:
  assumes "lru_inv weight ok s" and "op_ok ok x"
  shows "\<exists>s'. lru_step c s x = Inr s' \<and> lru_inv weight ok s' \<and> lru_max_size s' = lru_max_size s
    \<and> bindings s' = spec_step weight (lru_max_size s) (bindings s) x"
proof (cases x)
  case (Remove k)
  then show ?thesis
    using remove_sim [OF assms(1), of k] index_None [OF assms(1), of k] assms(1)
    by (cases "lru_index s k") (auto simp: lru_remove_def)
next
  case (Touch k)
  then show ?thesis using touch_sim [OF assms(1), of k] by (auto simp: lru_touch_def)
next
  case (Fetch k t)
  then show ?thesis using fetch_sim(1) [OF assms(1), of k t] by auto
next
  case (FetchPtr k t)
  then show ?thesis using fetch_sim(2) [OF assms(1), of k t] by auto
next
  case (Insert k d)
  then show ?thesis using insert_sim [OF assms(1), of d k] assms(2) by auto
next
  case Clear
  then show ?thesis by (simp add: lru_clear_def lru_inv_def bindings_def total_def)
qed

lemma run_sim:
  "lru_inv weight ok s \<Longrightarrow> list_all (op_ok ok) xs \<Longrightarrow>
     \<exists>s'. lru_run c s xs = Inr s' \<and> lru_inv weight ok s' \<and> lru_max_size s' = lru_max_size s
       \<and> bindings s' = foldl (spec_step weight (lru_max_size s)) (bindings s) xs"
proof (induction xs arbitrary: s)
  case (Cons x xs)
  then obtain t where "lru_step c s x = Inr t" "lru_inv weight ok t"
    "lru_max_size t = lru_max_size s" "bindings t = spec_step weight (lru_max_size s) (bindings s) x"
    using step_sim [of s x] by auto
  with Cons show ?case by fastforce
qed simp

end
lemma lru_inv_new: "lru_inv w ok (LRUCache_new m)"
  by (simp add: lru_inv_def LRUCache_new_def bindings_def total_def)

lemma bindings_new [simp]: "bindings (LRUCache_new m) = []" "lru_max_size (LRUCache_new m) = m"
  by (simp_all add: LRUCache_new_def bindings_def)

section \<open>Trimming without wrap-around\<close>

definition nat_total :: "('d \<Rightarrow> u64) \<Rightarrow> ('k \<times> 'd) list \<Rightarrow> nat" where
  "nat_total w xs = sum_list (map (\<lambda>x. unat (w (snd x))) xs)"

lemma nat_total_simps [simp]:
  "nat_total w [] = 0" "nat_total w (x # xs) = unat (w (snd x)) + nat_total w xs"
  "nat_total w (xs @ ys) = nat_total w xs + nat_total w ys"
  by (simp_all add: nat_total_def)

lemma total_nat: "nat_total w xs < 2 ^ 64 \<Longrightarrow> unat (total w xs) = nat_total w xs"
proof (induction xs)
  case (Cons x xs)
  then show ?case by (simp add: total_def unat_word_ariths)
qed (simp add: total_def)

lemma nat_total_without: "nat_total w (without k xs) \<le> nat_total w xs"
  by (induction xs) (auto simp: without_def)

lemma nat_total_promote:
  "distinct (map fst xs) \<Longrightarrow> nat_total w (promote k xs) = nat_total w xs"
proof -
  have "distinct (map fst xs) \<Longrightarrow> map_of xs k = Some d \<Longrightarrow>
      nat_total w (without k xs) + unat (w d) = nat_total w xs" for d
  proof (induction xs)
    case (Cons x xs)
    show ?case
    proof (cases "fst x = k")
      case True
      then have "without k xs = xs" using Cons.prems(1) by (intro without_absent) auto
      with True Cons.prems show ?thesis by (cases x) (simp add: without_def)
    next
      case False
      with Cons show ?thesis by (cases x) (simp add: without_def)
    qed
  qed simp
  then show "distinct (map fst xs) \<Longrightarrow> nat_total w (promote k xs) = nat_total w xs"
    by (cases "map_of xs k") (simp_all add: promote_def add.commute)
qed

text \<open>
  Trimming keeps the longest prefix whose weight is within the limit.
\<close>

lemma trim_longest:
  assumes "nat_total w xs < 2 ^ 64"
  shows "\<exists>n \<le> length xs. trim w m xs = take n xs \<and> nat_total w (take n xs) \<le> unat m
    \<and> (\<forall>j \<le> length xs. nat_total w (take j xs) \<le> unat m \<longrightarrow> j \<le> n)"
  using assms
proof (induction xs rule: rev_induct)
  case Nil
  then show ?case by (simp add: trim.simps [of _ _ "[]"] total_def)
next
  case (snoc x xs)
  have iff: "total w (xs @ [x]) > m \<longleftrightarrow> nat_total w (xs @ [x]) > unat m"
    using total_nat [OF snoc.prems] by (simp add: word_less_nat_alt)
  show ?case
  proof (cases "nat_total w (xs @ [x]) > unat m")
    case True
    obtain n where n: "n \<le> length xs" "trim w m xs = take n xs" "nat_total w (take n xs) \<le> unat m"
      "\<forall>j \<le> length xs. nat_total w (take j xs) \<le> unat m \<longrightarrow> j \<le> n"
      using snoc by auto
    then show ?thesis
      using True iff by (intro exI [of _ n]) (auto simp: trim.simps [of _ _ "xs @ [x]"] le_Suc_eq)
  next
    case False
    then show ?thesis
      using iff by (intro exI [of _ "Suc (length xs)"]) (auto simp: trim.simps [of _ _ "xs @ [x]"])
  qed
qed

lemma spec_step_budget:
  assumes "nat_total w xs \<le> unat m" and "distinct (map fst xs)"
    and "\<And>k d. x = Insert k d \<Longrightarrow> unat m + unat (w d) < 2 ^ 64"
  shows "nat_total w (spec_step w m xs x) \<le> unat m"
proof (cases x)
  case (Insert k d)
  have "nat_total w ((k, d) # without k xs) < 2 ^ 64"
    using nat_total_without [of w k xs] assms(1) assms(3) [OF Insert] by simp
  from trim_longest [OF this, of m] show ?thesis using Insert by auto
qed (use assms nat_total_without [of w _ xs] nat_total_promote [of xs w] in
      \<open>auto intro: order_trans\<close>)
context size_calculator
begin

lemma run_budget:
  assumes "lru_inv weight ok s" and "nat_total weight (bindings s) \<le> unat (lru_max_size s)"
    and "\<And>d. ok d \<Longrightarrow> unat (lru_max_size s) + unat (weight d) < 2 ^ 64"
    and "list_all (op_ok ok) xs"
  shows "\<exists>s'. lru_run c s xs = Inr s' \<and> lru_inv weight ok s' \<and> lru_max_size s' = lru_max_size s
    \<and> nat_total weight (bindings s') \<le> unat (lru_max_size s)"
  using assms
proof (induction xs arbitrary: s)
  case (Cons x xs)
  then obtain t where t: "lru_step c s x = Inr t" "lru_inv weight ok t"
    "lru_max_size t = lru_max_size s" "bindings t = spec_step weight (lru_max_size s) (bindings s) x"
    using step_sim [of s x] by auto
  have "unat (lru_max_size s) + unat (weight d) < 2 ^ 64" if "x = Insert k d" for k d
    using Cons.prems(3) [of d] Cons.prems(4) that by simp
  then have "nat_total weight (bindings t) \<le> unat (lru_max_size t)"
    using spec_step_budget [OF Cons.prems(2) lru_invD(2) [OF Cons.prems(1)], of x] t by auto
  then show ?case
    using Cons.IH [OF t(2)] Cons.prems(3,4) t(1,3) by simp
qed simp

lemma insert_longest:
  assumes "lru_inv weight ok s" and "nat_total weight (bindings s) \<le> unat (lru_max_size s)"
    and "ok d" and "unat (lru_max_size s) + unat (weight d) < 2 ^ 64"
    and xs: "xs = (k, d) # without k (bindings s)"
  shows "\<exists>s' n. lru_insert c s k d = Inr s' \<and> n \<le> length xs \<and> bindings s' = take n xs
    \<and> nat_total weight (take n xs) \<le> unat (lru_max_size s)
    \<and> (\<forall>j \<le> length xs. nat_total weight (take j xs) \<le> unat (lru_max_size s) \<longrightarrow> j \<le> n)"
proof -
  have "nat_total weight xs < 2 ^ 64"
    using nat_total_without [of weight k "bindings s"] assms(2,4) by (simp add: xs)
  then show ?thesis
    using trim_longest [of weight xs "lru_max_size s"] insert_sim [OF assms(1,3), of k]
    unfolding xs by metis
qed

end

section \<open>The calculators of the program\<close>

definition asset_weight :: "Asset \<Rightarrow> u64" where
  "asset_weight a = ucast ((of_nat (length (getData a)) :: u32) + TOTAL_OVERHEAD)"

definition asset_fits :: "Asset \<Rightarrow> bool" where
  "asset_fits a = (length (getData a) < 2 ^ 32)"

interpretation entry_count: size_calculator EntryCountCalculator "\<lambda>_. 1" "\<lambda>_. True"
  by unfold_locales (simp_all add: EntryCountCalculator_def)

interpretation asset_size: size_calculator AssetSizeCalculator asset_weight asset_fits
  by unfold_locales
    (simp_all add: AssetSizeCalculator_def asset_weight_def asset_fits_def getSize_def
      numeric_cast_u32_def)

lemma asset_weight_less: "unat (asset_weight a) < 2 ^ 32"
  using unsigned_less [of "of_nat (length (getData a)) + TOTAL_OVERHEAD :: u32", where 'a = nat]
  by (simp add: asset_weight_def unsigned_ucast_eq take_bit_nat_def)

lemma nat_total_count [simp]: "nat_total (\<lambda>_. 1) xs = length xs"
  by (induction xs) simp_all

section \<open>Properties\<close>

text \<open>
  C4: whatever sequence of operations a cache of assets goes through, no operation uses an
  iterator of a removed node or steps back from the beginning of the list, the eviction loop ends,
  and the cache holds the bindings of the abstract cache, in order of use; a fetch returns the
  binding of the key.
\<close>

theorem lru_refines:
  assumes "list_all (op_ok asset_fits) ops"
  shows "\<exists>s. lru_run AssetSizeCalculator (LRUCache_new m) ops = Inr s
    \<and> bindings s = foldl (spec_step asset_weight m) [] ops
    \<and> (\<forall>k t. \<exists>s'. fetch s k t = Inr (s', map_of (bindings s) k))"
proof -
  obtain s where s: "lru_run AssetSizeCalculator (LRUCache_new m) ops = Inr s"
    "lru_inv asset_weight asset_fits s" "bindings s = foldl (spec_step asset_weight m) [] ops"
    using asset_size.run_sim [OF lru_inv_new assms, of m] by auto
  then show ?thesis
    using asset_size.fetch_sim(1) [OF s(2)] by blast
qed

theorem lru_refines_witness:
  "\<exists>s. lru_run AssetSizeCalculator (LRUCache_new 100)
      [Insert (1 :: nat) (Asset [1, 2]), Insert 2 (Asset [3]), Touch 1, Insert 3 (Asset [])] = Inr s
    \<and> bindings s = [(3, Asset []), (1, Asset [1, 2])]"
proof -
  have "trim asset_weight 100 [(1 :: nat, Asset [1, 2])] = [(1, Asset [1, 2])]"
    "trim asset_weight 100 [(2 :: nat, Asset [3]), (1, Asset [1, 2])] = [(2, Asset [3]), (1, Asset [1, 2])]"
    "trim asset_weight 100 [(3 :: nat, Asset []), (1, Asset [1, 2]), (2, Asset [3])]
       = [(3, Asset []), (1, Asset [1, 2])]"
    by (simp_all add: trim.simps total_def asset_weight_def TOTAL_OVERHEAD_def)
  then show ?thesis
    using lru_refines [of "[Insert (1 :: nat) (Asset [1, 2]), Insert 2 (Asset [3]), Touch 1,
        Insert 3 (Asset [])]" 100]
    by (auto simp: asset_fits_def without_def promote_def)
qed

text \<open>
  C5: the cache of assets never weighs more than its limit; an insertion keeps the longest run of
  most recently used entries that fits, the new one first, for every limit below \<open>2 ^ 64 - 2 ^ 32\<close>.
\<close>

theorem lru_budget:
  assumes "list_all (op_ok asset_fits) ops" and "asset_fits d" and "unat m < 2 ^ 64 - 2 ^ 32"
  shows "\<exists>s s' n. lru_run AssetSizeCalculator (LRUCache_new m) ops = Inr s
    \<and> nat_total asset_weight (bindings s) \<le> unat m
    \<and> lru_insert AssetSizeCalculator s k d = Inr s'
    \<and> bindings s' = take n ((k, d) # without k (bindings s))
    \<and> nat_total asset_weight (bindings s') \<le> unat m
    \<and> (\<forall>j. j \<le> Suc (length (without k (bindings s))) \<longrightarrow>
          nat_total asset_weight (take j ((k, d) # without k (bindings s))) \<le> unat m \<longrightarrow> j \<le> n)"
proof -
  have room: "unat m + unat (asset_weight a) < 2 ^ 64" for a
    using asset_weight_less [of a] assms(3) by simp
  then obtain s where s: "lru_run AssetSizeCalculator (LRUCache_new m) ops = Inr s"
    "lru_inv asset_weight asset_fits s" "lru_max_size s = m" "nat_total asset_weight (bindings s) \<le> unat m"
    using asset_size.run_budget [OF lru_inv_new [of asset_weight asset_fits m] _ _ assms(1)] by auto
  then show ?thesis
    using asset_size.insert_longest [OF s(2) _ assms(2) _ refl, where k = k] room by fastforce
qed

theorem lru_budget_witness:
  "\<exists>s s' n. lru_run AssetSizeCalculator (LRUCache_new 100) [Insert ''a'' (Asset [1])] = Inr s
    \<and> lru_insert AssetSizeCalculator s ''b'' (Asset []) = Inr s' \<and> nat_total asset_weight (bindings s') \<le> 100"
  using lru_budget [of "[Insert ''a'' (Asset [1])]" "Asset []" 100 "''b''"]
  by (auto simp: asset_fits_def)

text \<open>
  C6: with the entry count calculator, an insertion keeps exactly the limit's number of most
  recently used entries, the new one first.
\<close>

theorem lru_count:
  assumes "Suc (unat m) < 2 ^ 64"
  shows "\<exists>s s'. lru_run EntryCountCalculator (LRUCache_new m) ops = Inr s
    \<and> length (bindings s) \<le> unat m
    \<and> lru_insert EntryCountCalculator s k d = Inr s'
    \<and> bindings s' = take (unat m) ((k, d) # without k (bindings s))"
proof -
  have ok: "list_all (op_ok (\<lambda>_. True)) ops"
    unfolding list_all_iff by (intro ballI, case_tac x) simp_all
  obtain s where s: "lru_run EntryCountCalculator (LRUCache_new m) ops = Inr s"
    "lru_inv (\<lambda>_. 1) (\<lambda>_. True) s" "lru_max_size s = m" "length (bindings s) \<le> unat m"
    using entry_count.run_budget [OF lru_inv_new [of "\<lambda>_. 1" "\<lambda>_. True" m] _ _ ok] assms by auto
  let ?xs = "(k, d) # without k (bindings s)"
  have "length (bindings s) \<le> unat (lru_max_size s)" "unat (lru_max_size s) + unat (1 :: u64) < 2 ^ 64"
    using s(3,4) assms by simp_all
  then obtain s' n where i: "lru_insert EntryCountCalculator s k d = Inr s'" "n \<le> length ?xs"
    "bindings s' = take n ?xs" "length (take n ?xs) \<le> unat m"
    "\<forall>j \<le> length ?xs. length (take j ?xs) \<le> unat m \<longrightarrow> j \<le> n"
    using entry_count.insert_longest [OF s(2) _ _ _ refl, where k = k and d = d] s(3)
    unfolding nat_total_count by blast
  have "n \<le> unat m" using i(2,4) by simp
  moreover have "j \<le> n" if "j \<le> length ?xs" "j \<le> unat m" for j
    using i(5) that by (metis length_take min.absorb2)
  ultimately have "take n ?xs = take (unat m) ?xs"
    using i(2) by (cases "unat m \<le> length ?xs") (metis antisym order_refl, metis antisym nle_le take_all)
  then show ?thesis using s i by auto
qed

theorem lru_count_witness:
  "\<exists>s s'. lru_run EntryCountCalculator (LRUCache_new 1) [Insert (1 :: nat) (7 :: nat)] = Inr s
    \<and> lru_insert EntryCountCalculator s 2 8 = Inr s' \<and> bindings s' = [(2, 8)]"
  using lru_count [of 1 "[Insert (1 :: nat) (7 :: nat)]" 2 8] by auto
end
