(* ===== verification/Storage.thy ===== *)
theory Storage
  imports LruCache
begin

text \<open>
  The disk layer under one storage root: the POSIX data files of \<open>PosixDataFileImpl\<close>, the record
  format of \<open>DataFile\<close>, the SQLite tables of \<open>SQLiteIndexFile\<close> with the manager that keeps at most
  512 of them open, and the two databases, globals and locals, of a directory (\<open>VFSDatabase\<close>,
  \<open>DatabaseSet\<close>).  Every operation takes what the operating system and SQLite answer to its calls,
  so each failure path of the code is a run of the model.  The lemmas show that the files
  implement a map from asset ids to assets that no failed store disturbs.
\<close>

section \<open>The disk and what its calls may answer\<close>

text \<open>A file is named by its directory under the root and its name in it.\<close>

type_synonym path = "string \<times> string"

record IndexRow =
  asset_id :: string
  position :: int
  row_type :: int
  deleted :: int

text \<open>An index file: whether the tables were created, and the rows in the order of insertion.\<close>

record IndexDb =
  db_tables :: bool
  db_rows :: "IndexRow list"

record Storage =
  st_root :: string
  st_dirs :: "string set"
  st_data :: "path \<Rightarrow> bytes option"
  st_idx :: "path \<Rightarrow> IndexDb option"
  st_open :: "(string, path) LRUCache"

datatype read_call = ReadSize | ReadData
datatype write_call = WriteMagic | WriteSize | WriteData
datatype sql_call =
    SqlOpen | SqlVersion | SqlBegin | SqlCreateVersions | SqlCreateIndex | SqlInsertVersion | SqlCommit | SqlRollback
  | SqlFind | SqlRecord | SqlList

text \<open>\<open>create_directory\<close> says whether it made the directory, or throws.\<close>

datatype mkdir_answer = Created | NotCreated | MkdirThrows

text \<open>
  \<open>io_read\<close> and \<open>io_write\<close> give how many bytes a call transfers at most, \<open>None\<close> for the answer -1;
  \<open>io_sql\<close> the error message and code of a statement on a file, if it fails.
\<close>

record Io =
  io_open :: bool
  io_stat :: bool
  io_seek :: bool
  io_mkdir :: mkdir_answer
  io_remove :: "path \<Rightarrow> bool"
  io_read :: "read_call \<Rightarrow> nat option"
  io_write :: "write_call \<Rightarrow> nat option"
  io_sql :: "path \<Rightarrow> sql_call \<Rightarrow> (string \<times> int) option"

definition path_string :: "Storage \<Rightarrow> path \<Rightarrow> string" where
  "path_string s p = st_root s @ ''/'' @ fst p @ ''/'' @ snd p"

section \<open>POSIX files\<close>

datatype FileMode = Read | Write

record PosixDataFile =
  pf_path :: path
  pf_off :: nat

definition posix_error :: "string \<Rightarrow> string \<Rightarrow> exn" where
  "posix_error msg path = AssetStorageError (''[IWVFS][POSIX] '' @ msg @ '' ['' @ path @ '']'') True"

text \<open>
  \<open>open\<close>: the message has an empty path because the member is assigned after the call.
\<close>

definition posix_open :: "Io \<Rightarrow> path \<Rightarrow> FileMode \<Rightarrow> (Storage, PosixDataFile) action" where
  "posix_open io p mode s =
     (if \<not> io_open io \<or> fst p \<notin> st_dirs s \<or> mode = Read \<and> st_data s p = None
      then (Inl (posix_error ''Unable to open data file for writing'' ''''), s)
      else (Inr \<lparr>pf_path = p, pf_off = 0\<rparr>,
            if st_data s p = None then s\<lparr>st_data := (st_data s)(p \<mapsto> [])\<rparr> else s))"

definition content :: "Storage \<Rightarrow> path \<Rightarrow> bytes" where
  "content s p = (case st_data s p of None \<Rightarrow> [] | Some c \<Rightarrow> c)"

definition posix_size :: "Io \<Rightarrow> PosixDataFile \<Rightarrow> (Storage, int) action" where
  "posix_size io f s =
     (if io_stat io then (Inr (int (length (content s (pf_path f)))), s)
      else (Inl (posix_error ''Unable to stat data file to retrieve size'' (path_string s (pf_path f))), s))"

definition posix_read :: "Io \<Rightarrow> read_call \<Rightarrow> PosixDataFile \<Rightarrow> nat \<Rightarrow> (Storage, PosixDataFile \<times> bytes) action" where
  "posix_read io call f sz s =
     (case io_read io call of
        None \<Rightarrow> (Inl (posix_error ''Error while reading from data file'' (path_string s (pf_path f))), s)
      | Some n \<Rightarrow>
          (let d = take (min n sz) (drop (pf_off f) (content s (pf_path f)))
           in if length d \<noteq> sz
              then (Inl (posix_error ''Short read encountered while reading from data file''
                      (path_string s (pf_path f))), s)
              else (Inr (f\<lparr>pf_off := pf_off f + sz\<rparr>, d), s)))"

definition overwrite :: "bytes \<Rightarrow> nat \<Rightarrow> bytes \<Rightarrow> bytes" where
  "overwrite c off d = take off c @ replicate (off - length c) 0 @ d @ drop (off + length d) c"

definition posix_write :: "Io \<Rightarrow> write_call \<Rightarrow> PosixDataFile \<Rightarrow> bytes \<Rightarrow> (Storage, PosixDataFile) action" where
  "posix_write io call f d s =
     (case io_write io call of
        None \<Rightarrow> (Inl (posix_error ''Error while writing to data file'' (path_string s (pf_path f))), s)
      | Some n \<Rightarrow>
          (let w = take n d;
               s' = s\<lparr>st_data := (st_data s)(pf_path f \<mapsto>
                       overwrite (content s (pf_path f)) (pf_off f) w)\<rparr>
           in if length w \<noteq> length d
              then (Inl (posix_error ''Short write encountered while writing to data file''
                      (path_string s (pf_path f))), s')
              else (Inr (f\<lparr>pf_off := pf_off f + length d\<rparr>), s')))"

definition posix_seek :: "Io \<Rightarrow> PosixDataFile \<Rightarrow> int \<Rightarrow> (Storage, PosixDataFile) action" where
  "posix_seek io f pos s =
     (if \<not> io_seek io \<or> pos < 0
      then (Inl (posix_error ''Error while seeking file'' (path_string s (pf_path f))), s)
      else (Inr (f\<lparr>pf_off := nat pos\<rparr>), s))"

section \<open>The data file\<close>

definition data_magic :: bytes where
  "data_magic = bytes_of_string ''IWZDDB01''"

text \<open>
  A record is the size of the asset in network byte order and its bytes.  The address of the first
  element of an empty vector is not defined.
\<close>

definition getAssetAtPosition :: "Io \<Rightarrow> path \<Rightarrow> int \<Rightarrow> (Storage, Asset) action" where
  "getAssetAtPosition io p pos =
     abind (posix_open io p Read) (\<lambda>f.
     abind (posix_seek io f pos) (\<lambda>f.
     abind (posix_read io ReadSize f 4) (\<lambda>(f, d).
     (let assetSize = unat (of_be32 d) in
      if assetSize = 0 then araise UndefinedBehaviour
      else abind (posix_read io ReadData f assetSize) (\<lambda>(f, d). areturn (Asset d))))))"

text \<open>
  A new asset goes to the end of the file, which gets its magic number when it is created.
\<close>

definition open_for_append :: "Io \<Rightarrow> path \<Rightarrow> (Storage, PosixDataFile \<times> int) action" where
  "open_for_append io p =
     abind (aget (\<lambda>s. st_data s p \<noteq> None)) (\<lambda>fileExisted.
     abind (posix_open io p Write) (\<lambda>f.
     if \<not> fileExisted
     then abind (posix_write io WriteMagic f data_magic) (\<lambda>f. areturn (f, 8))
     else abind (posix_size io f) (\<lambda>pos.
          abind (posix_seek io f pos) (\<lambda>f. areturn (f, pos)))))"

definition write_record :: "Io \<Rightarrow> PosixDataFile \<Rightarrow> Asset \<Rightarrow> (Storage, unit) action" where
  "write_record io f newAsset =
     abind (alift (numeric_cast_u32 (length (getData newAsset)))) (\<lambda>assetSize.
     abind (posix_write io WriteSize f (be32 assetSize)) (\<lambda>f.
     if getData newAsset = [] then araise UndefinedBehaviour
     else abind (posix_write io WriteData f (getData newAsset)) (\<lambda>f. areturn ())))"

definition writeNewAsset :: "Io \<Rightarrow> path \<Rightarrow> Asset \<Rightarrow> (Storage, int) action" where
  "writeNewAsset io p newAsset =
     abind (open_for_append io p) (\<lambda>(f, pos).
     abind (write_record io f newAsset) (\<lambda>_. areturn pos))"

section \<open>The index file\<close>

definition INVALID_POSITION :: int where
  "INVALID_POSITION = 0"

text \<open>
  The ids are pasted into the statements between quotes: a quote or a terminator in one makes
  another statement of it, whose meaning is outside the model.
\<close>

definition sql_text :: "string \<Rightarrow> bool" where
  "sql_text u = list_all (\<lambda>c. c \<noteq> CHR 0x27 \<and> c \<noteq> CHR 0x00) u"

definition sql_check :: "Io \<Rightarrow> path \<Rightarrow> sql_call \<Rightarrow> (Storage, unit) action" where
  "sql_check io p call =
     (case io_sql io p call of Some (msg, code) \<Rightarrow> araise (SQLiteError msg code) | None \<Rightarrow> areturn ())"

definition empty_db :: IndexDb where
  "empty_db = \<lparr>db_tables = False, db_rows = []\<rparr>"

text \<open>
  A transaction that is not committed is rolled back by a destructor.  When the rollback fails while
  an exception is on its way the process ends; as for undefined behaviour, nothing is said of what
  follows.
\<close>

definition transaction :: "Io \<Rightarrow> path \<Rightarrow> (Storage, unit) action \<Rightarrow> (Storage, unit) action" where
  "transaction io p body =
     abind (sql_check io p SqlBegin) (\<lambda>_ s.
     case abind body (\<lambda>_. sql_check io p SqlCommit) s of
       (Inr _, s') \<Rightarrow> (Inr (), s')
     | (Inl e, _) \<Rightarrow> (Inl (if io_sql io p SqlRollback = None then e else UndefinedBehaviour), s))"

definition initializeDatabase :: "Io \<Rightarrow> path \<Rightarrow> (Storage, unit) action" where
  "initializeDatabase io p =
     transaction io p (
       abind (sql_check io p SqlCreateVersions) (\<lambda>_.
       abind (sql_check io p SqlCreateIndex) (\<lambda>_.
       abind (sql_check io p SqlInsertVersion) (\<lambda>_.
       amodify (\<lambda>s. s\<lparr>st_idx := (st_idx s)(p \<mapsto> \<lparr>db_tables = True, db_rows = []\<rparr>)\<rparr>)))))"

text \<open>
  Opening creates the file where there is none, for which there must be its directory, and the
  tables where it has none.
\<close>

definition SQLiteIndexFile_new :: "Io \<Rightarrow> path \<Rightarrow> (Storage, path) action" where
  "SQLiteIndexFile_new io p =
     abind (sql_check io p SqlOpen) (\<lambda>_.
     abind (aget (\<lambda>s. fst p \<in> st_dirs s \<or> st_idx s p \<noteq> None)) (\<lambda>there.
     if \<not> there then araise (SQLiteError ''[SQLiteConnection] Could not open database: unable to open database file'' 14)
     else
     abind (amodify (\<lambda>s. if st_idx s p = None then s\<lparr>st_idx := (st_idx s)(p \<mapsto> empty_db)\<rparr> else s)) (\<lambda>_.
     abind (sql_check io p SqlVersion) (\<lambda>_.
     abind (aget (\<lambda>s. case st_idx s p of Some db \<Rightarrow> db_tables db | None \<Rightarrow> False)) (\<lambda>tables.
     abind (if tables then areturn () else initializeDatabase io p) (\<lambda>_. areturn p))))))"

definition MAX_OPEN_FILES :: u64 where
  "MAX_OPEN_FILES = 512"

definition openIndexFile :: "Io \<Rightarrow> path \<Rightarrow> (Storage, path) action" where
  "openIndexFile io p s =
     (let strPath = path_string s p in
      case fetch (st_open s) strPath True of
        Inl e \<Rightarrow> (Inl e, s)
      | Inr (c, Some indexFile) \<Rightarrow> (Inr indexFile, s\<lparr>st_open := c\<rparr>)
      | Inr (c, None) \<Rightarrow>
          abind (SQLiteIndexFile_new io p) (\<lambda>indexFile s.
            case lru_insert EntryCountCalculator (st_open s) strPath indexFile of
              Inl e \<Rightarrow> (Inl e, s)
            | Inr c \<Rightarrow> (Inr indexFile, s\<lparr>st_open := c\<rparr>)) (s\<lparr>st_open := c\<rparr>))"

definition forceCloseIndexFile :: "path \<Rightarrow> (Storage, unit) action" where
  "forceCloseIndexFile p s =
     (let strPath = path_string s p in
      case fetch (st_open s) strPath True of
        Inl e \<Rightarrow> (Inl e, s)
      | Inr (c, None) \<Rightarrow> (Inr (), s\<lparr>st_open := c\<rparr>)
      | Inr (c, Some indexFile) \<Rightarrow>
          (case lru_remove EntryCountCalculator c strPath of
             Inl e \<Rightarrow> (Inl e, s\<lparr>st_open := c\<rparr>)
           | Inr c \<Rightarrow> (Inr (), s\<lparr>st_open := c\<rparr>)))"

definition manager_shutdown :: "Storage \<Rightarrow> Storage" where
  "manager_shutdown s = s\<lparr>st_open := lru_clear (st_open s)\<rparr>"

definition rows :: "Storage \<Rightarrow> path \<Rightarrow> IndexRow list" where
  "rows s p = (case st_idx s p of Some db \<Rightarrow> db_rows db | None \<Rightarrow> [])"

definition findAssetPosition :: "Io \<Rightarrow> path \<Rightarrow> string \<Rightarrow> (Storage, int) action" where
  "findAssetPosition io p uuid =
     (if \<not> sql_text uuid then araise UndefinedBehaviour
      else abind (sql_check io p SqlFind) (\<lambda>_.
           aget (\<lambda>s. case filter (\<lambda>r. asset_id r = uuid) (rows s p) of
                        [] \<Rightarrow> INVALID_POSITION
                      | r # _ \<Rightarrow> if deleted r = 1 then INVALID_POSITION else position r)))"

definition recordAssetPosition :: "Io \<Rightarrow> path \<Rightarrow> Asset \<Rightarrow> int \<Rightarrow> (Storage, unit) action" where
  "recordAssetPosition io p asset pos =
     abind (alift (Asset_getUUID asset)) (\<lambda>uuid.
     abind (alift (getType asset)) (\<lambda>t.
     if \<not> sql_text uuid then araise UndefinedBehaviour
     else abind (sql_check io p SqlRecord) (\<lambda>_ s.
          if uuid \<in> asset_id ` set (rows s p)
          then (Inl (SQLiteError ''[SQLiteConnection] Unable to execute query: constraint failed'' 19), s)
          else (Inr (), s\<lparr>st_idx := (st_idx s)(p \<mapsto>
                  \<lparr>db_tables = True, db_rows = rows s p
                     @ [\<lparr>asset_id = uuid, position = pos, row_type = uint t, deleted = 0\<rparr>]\<rparr>)\<rparr>))))"

text \<open>\<open>uuid_t(const char*)\<close> as an expression: an uninitialised object is not a defined value.\<close>

definition uuid_value :: "string \<Rightarrow> uuid result" where
  "uuid_value t =
     ebind (uuid_of_cstring t) (\<lambda>u. case u of None \<Rightarrow> Inl UndefinedBehaviour | Some u \<Rightarrow> Inr u)"

fun map_result :: "('a \<Rightarrow> 'b result) \<Rightarrow> 'a list \<Rightarrow> 'b list result" where
  "map_result f [] = Inr []"
| "map_result f (x # xs) = ebind (f x) (\<lambda>y. ebind (map_result f xs) (\<lambda>ys. Inr (y # ys)))"

definition getContainedAssetIds :: "Io \<Rightarrow> path \<Rightarrow> (Storage, uuid list) action" where
  "getContainedAssetIds io p =
     abind (sql_check io p SqlList) (\<lambda>_ s. (map_result (\<lambda>r. uuid_value (asset_id r)) (rows s p), s))"

definition getContainedAssetIdStrings :: "Io \<Rightarrow> path \<Rightarrow> (Storage, string list) action" where
  "getContainedAssetIdStrings io p =
     abind (sql_check io p SqlList) (\<lambda>_. aget (\<lambda>s. map asset_id (rows s p)))"

section \<open>A database and the set of databases of a directory\<close>

record VFSDatabase =
  vd_index :: path
  vd_data :: path

definition VFSDatabase_new :: "Io \<Rightarrow> string \<Rightarrow> string \<Rightarrow> (Storage, VFSDatabase) action" where
  "VFSDatabase_new io fileNameBase dir s =
     (if dir \<notin> st_dirs s
      then (Inl (AssetStorageError (''Could not mount VFS database: '' @ st_root s @ ''/'' @ dir
                   @ '' path was not found'') True), s)
      else abind (openIndexFile io (dir, fileNameBase @ ''.idx''))
             (\<lambda>idx. areturn \<lparr>vd_index = idx, vd_data = (dir, fileNameBase @ ''.data'')\<rparr>) s)"

definition db_getAsset :: "Io \<Rightarrow> VFSDatabase \<Rightarrow> string \<Rightarrow> (Storage, Asset option) action" where
  "db_getAsset io db uuid =
     abind (findAssetPosition io (vd_index db) uuid) (\<lambda>pos.
     if pos = INVALID_POSITION then areturn None
     else abind (getAssetAtPosition io (vd_data db) pos) (\<lambda>a. areturn (Some a)))"

definition db_assetExists :: "Io \<Rightarrow> VFSDatabase \<Rightarrow> string \<Rightarrow> (Storage, bool) action" where
  "db_assetExists io db uuid =
     abind (findAssetPosition io (vd_index db) uuid) (\<lambda>pos. areturn (pos \<noteq> INVALID_POSITION))"

definition db_storeAsset :: "Io \<Rightarrow> VFSDatabase \<Rightarrow> Asset \<Rightarrow> (Storage, unit) action" where
  "db_storeAsset io db asset =
     abind (alift (Asset_getUUID asset)) (\<lambda>uuid.
     abind (db_assetExists io db uuid) (\<lambda>there.
     if \<not> there
     then abind (writeNewAsset io (vd_data db) asset) (\<lambda>pos.
          recordAssetPosition io (vd_index db) asset pos)
     else araise (AssetStorageError (''Unable to store asset '' @ uuid @ '', asset already exists'') True)))"

definition db_purgeAsset :: "VFSDatabase \<Rightarrow> string \<Rightarrow> (Storage, unit) action" where
  "db_purgeAsset db uuid =
     araise (AssetStorageError ''[IWVFS] Purge is not yet implemented for VFS'' False)"

record DatabaseSet =
  globalDB :: VFSDatabase
  localDB :: VFSDatabase

definition DatabaseSet_new :: "Io \<Rightarrow> string \<Rightarrow> (Storage, DatabaseSet) action" where
  "DatabaseSet_new io dir =
     abind (VFSDatabase_new io ''globals'' dir) (\<lambda>g.
     abind (VFSDatabase_new io ''locals'' dir) (\<lambda>l.
     areturn \<lparr>globalDB = g, localDB = l\<rparr>))"

definition set_getAsset :: "Io \<Rightarrow> DatabaseSet \<Rightarrow> string \<Rightarrow> (Storage, Asset option) action" where
  "set_getAsset io db uuid =
     abind (db_getAsset io (globalDB db) uuid) (\<lambda>a.
     case a of Some _ \<Rightarrow> areturn a | None \<Rightarrow> db_getAsset io (localDB db) uuid)"

definition set_storeAsset :: "Io \<Rightarrow> DatabaseSet \<Rightarrow> Asset \<Rightarrow> (Storage, unit) action" where
  "set_storeAsset io db asset =
     abind (alift (isLocal asset)) (\<lambda>loc.
     db_storeAsset io (if loc then localDB db else globalDB db) asset)"

definition set_assetExists :: "Io \<Rightarrow> DatabaseSet \<Rightarrow> string \<Rightarrow> (Storage, bool) action" where
  "set_assetExists io db uuid =
     abind (db_assetExists io (globalDB db) uuid) (\<lambda>there.
     if there then areturn True else db_assetExists io (localDB db) uuid)"

definition set_purgeAsset :: "Io \<Rightarrow> DatabaseSet \<Rightarrow> string \<Rightarrow> (Storage, unit) action" where
  "set_purgeAsset io db uuid =
     abind (db_assetExists io (globalDB db) uuid) (\<lambda>g.
     if g then db_purgeAsset (globalDB db) uuid
     else abind (db_assetExists io (localDB db) uuid) (\<lambda>l.
          if l then db_purgeAsset (localDB db) uuid
          else araise (AssetStorageError (''[IWVFS] Could not purge asset '' @ uuid
                 @ '', asset not found in database storage'') False)))"

section \<open>Synchronous operations of the backend\<close>

definition UUID_PATH_CHARS :: nat where
  "UUID_PATH_CHARS = 3"

definition getFullPathForUUID :: "string \<Rightarrow> string" where
  "getFullPathForUUID uuid = take UUID_PATH_CHARS uuid"

definition verifyDatabaseDirectory :: "Io \<Rightarrow> string \<Rightarrow> (Storage, unit) action" where
  "verifyDatabaseDirectory io uuid s =
     (let subdir = getFullPathForUUID uuid in
      if subdir \<notin> st_dirs s then
        (case io_mkdir io of
           MkdirThrows \<Rightarrow> (Inl (RuntimeError ''boost::filesystem::create_directory''), s)
         | NotCreated \<Rightarrow> (Inl (AssetStorageError (''Could not create directory for database storage ''
                      @ st_root s @ ''/'' @ subdir) True), s)
         | Created \<Rightarrow> (Inr (), s\<lparr>st_dirs := insert subdir (st_dirs s)\<rparr>))
      else (Inr (), s))"

definition verifyAndopenSetForUUID :: "Io \<Rightarrow> string \<Rightarrow> (Storage, DatabaseSet) action" where
  "verifyAndopenSetForUUID io uuid s =
     (case abind (verifyDatabaseDirectory io uuid)
             (\<lambda>_. DatabaseSet_new io (getFullPathForUUID uuid)) s of
        (Inl (SQLiteError msg code), s) \<Rightarrow>
          (Inl (AssetStorageError (''Index file error: '' @ msg) True), s)
      | r \<Rightarrow> r)"

definition disk_getAsset :: "Io \<Rightarrow> string \<Rightarrow> (Storage, Asset option) action" where
  "disk_getAsset io uuid = abind (verifyAndopenSetForUUID io uuid) (\<lambda>db. set_getAsset io db uuid)"

definition disk_storeAsset :: "Io \<Rightarrow> Asset \<Rightarrow> (Storage, unit) action" where
  "disk_storeAsset io asset =
     abind (alift (Asset_getUUID asset)) (\<lambda>uuid.
     abind (verifyAndopenSetForUUID io uuid) (\<lambda>db. set_storeAsset io db asset))"

text \<open>
  The last step of purging the local assets of a directory.
\<close>

definition remove_file :: "Io \<Rightarrow> path \<Rightarrow> (Storage \<Rightarrow> Storage) \<Rightarrow> (Storage, unit) action" where
  "remove_file io p del =
     (if io_remove io p then amodify del else araise (RuntimeError ''boost::filesystem::remove''))"

definition performLocalsPhysicalDeletion :: "Io \<Rightarrow> string \<Rightarrow> (Storage, unit) action" where
  "performLocalsPhysicalDeletion io uuidHead =
     (let indexPath = (uuidHead, ''locals.idx''); dataPath = (uuidHead, ''locals.data'') in
      abind (forceCloseIndexFile indexPath) (\<lambda>_.
      abind (remove_file io indexPath (\<lambda>s. s\<lparr>st_idx := (st_idx s)(indexPath := None)\<rparr>)) (\<lambda>_.
      remove_file io dataPath (\<lambda>s. s\<lparr>st_data := (st_data s)(dataPath := None)\<rparr>))))"

section \<open>What the files hold\<close>

definition record_at :: "bytes \<Rightarrow> nat \<Rightarrow> Asset option" where
  "record_at c pos =
     (let n = unat (of_be32 (take 4 (drop pos c))) in
      if pos + 4 \<le> length c \<and> n \<noteq> 0 \<and> pos + 4 + n \<le> length c
      then Some (Asset (take n (drop (pos + 4) c))) else None)"

definition lookup_row :: "IndexRow list \<Rightarrow> string \<Rightarrow> int option" where
  "lookup_row rs uuid =
     (case filter (\<lambda>r. asset_id r = uuid) rs of
        [] \<Rightarrow> None
      | r # _ \<Rightarrow> if deleted r = 1 \<or> position r = INVALID_POSITION then None else Some (position r))"

definition db_stored :: "Storage \<Rightarrow> string \<Rightarrow> string \<Rightarrow> string \<Rightarrow> Asset option" where
  "db_stored s dir base uuid =
     (case lookup_row (rows s (dir, base @ ''.idx'')) uuid of
        None \<Rightarrow> None
      | Some pos \<Rightarrow> record_at (content s (dir, base @ ''.data'')) (nat pos))"

definition stored :: "Storage \<Rightarrow> string \<Rightarrow> Asset option" where
  "stored s uuid =
     (case db_stored s (getFullPathForUUID uuid) ''globals'' uuid of
        Some a \<Rightarrow> Some a
      | None \<Rightarrow> db_stored s (getFullPathForUUID uuid) ''locals'' uuid)"

lemma record_at_append:
  "record_at c pos = Some a \<Longrightarrow> record_at (c @ d) pos = Some a"
  by (auto simp: record_at_def Let_def split: if_splits)

lemma record_at_written:
  assumes "getData a \<noteq> []" and "length (getData a) < 2 ^ 32"
  shows "record_at (c @ be32 (of_nat (length (getData a))) @ getData a) (length c) = Some a"
proof -
  have "unat (of_nat (length (getData a)) :: u32) = length (getData a)"
    using assms(2) by (simp add: unat_of_nat)
  then show ?thesis
    using assms(1) by (cases a) (simp add: record_at_def Let_def)
qed

section \<open>The invariant of the disk\<close>

definition bases :: "string set" where
  "bases = {''globals'', ''locals''}"

text \<open>
  A row that is not deleted points to a complete record; an open index file is one of the two of a
  directory and has its tables.
\<close>

definition row_ok :: "bytes \<Rightarrow> IndexRow \<Rightarrow> bool" where
  "row_ok c r \<longleftrightarrow> deleted r = 1 \<or> position r = INVALID_POSITION
     \<or> 0 \<le> position r \<and> record_at c (nat (position r)) \<noteq> None"

definition handle_ok :: "Storage \<Rightarrow> string \<times> path \<Rightarrow> bool" where
  "handle_ok s x \<longleftrightarrow> fst x = path_string s (snd x)
     \<and> (\<exists>b \<in> bases. snd (snd x) = b @ ''.idx'')
     \<and> (\<exists>db. st_idx s (snd x) = Some db \<and> db_tables db)"

definition storage_ok :: "Storage \<Rightarrow> bool" where
  "storage_ok s \<longleftrightarrow>
     lru_inv (\<lambda>_. 1) (\<lambda>_. True) (st_open s) \<and>
     (\<forall>x \<in> set (bindings (st_open s)). handle_ok s x) \<and>
     (\<forall>p db. st_idx s p = Some db \<longrightarrow> db_tables db \<or> db_rows db = []) \<and>
     (\<forall>dir. \<forall>b \<in> bases. distinct (map asset_id (rows s (dir, b @ ''.idx'')))
        \<and> list_all (row_ok (content s (dir, b @ ''.data''))) (rows s (dir, b @ ''.idx'')))"

lemma row_ok_append: "row_ok c r \<Longrightarrow> row_ok (c @ d) r"
  using record_at_append [of c "nat (position r)" _ d] by (auto simp: row_ok_def)

lemma path_string_inject:
  assumes "path_string s p = path_string s q" and "CHR ''/'' \<notin> set (snd p)" and "CHR ''/'' \<notin> set (snd q)"
  shows "p = q"
proof -
  have split: "takeWhile (\<lambda>c. c \<noteq> CHR ''/'') (rev (d @ CHR ''/'' # f)) = rev f"
    if "CHR ''/'' \<notin> set f" for d f
    using that by (induction f rule: rev_induct) (auto simp: takeWhile_append2)
  have eq: "fst p @ CHR ''/'' # snd p = fst q @ CHR ''/'' # snd q"
    using assms(1) by (simp add: path_string_def)
  then have "rev (snd p) = rev (snd q)"
    using split [OF assms(2)] split [OF assms(3)] by metis
  with eq show ?thesis by (simp add: prod_eq_iff)
qed

lemma base_name: "b \<in> bases \<Longrightarrow> CHR ''/'' \<notin> set (b @ ''.idx'')"
  by (auto simp: bases_def)

text \<open>Opening files changes neither the rows nor the data.\<close>

definition same_files :: "Storage \<Rightarrow> Storage \<Rightarrow> bool" where
  "same_files s s' \<longleftrightarrow> st_root s' = st_root s \<and> st_dirs s \<subseteq> st_dirs s' \<and> st_data s' = st_data s
     \<and> rows s' = rows s"

lemma same_files_refl [simp]: "same_files s s"
  by (simp add: same_files_def)

lemma same_files_trans: "same_files s t \<Longrightarrow> same_files t u \<Longrightarrow> same_files s u"
  by (auto simp: same_files_def)

lemma same_files_content: "same_files s s' \<Longrightarrow> content s' = content s"
  by (simp add: same_files_def content_def fun_eq_iff)

lemma same_files_db: "same_files s s' \<Longrightarrow> db_stored s' = db_stored s"
proof -
  assume same: "same_files s s'"
  then have "rows s' = rows s" by (simp add: same_files_def)
  with same_files_content [OF same] show "db_stored s' = db_stored s"
    by (simp add: db_stored_def [abs_def] cong: option.case_cong)
qed

lemma same_files_stored: "same_files s s' \<Longrightarrow> stored s' = stored s"
  using same_files_db [of s s'] by (simp add: stored_def [abs_def] cong: option.case_cong)

lemma handle_ok_open [simp]: "handle_ok (s\<lparr>st_open := c\<rparr>) x = handle_ok s x"
  by (simp add: handle_ok_def path_string_def)

lemma rows_update [simp]:
  "rows (s\<lparr>st_open := c\<rparr>) = rows s" "rows (s\<lparr>st_data := d\<rparr>) = rows s"
  "rows (s\<lparr>st_dirs := ds\<rparr>) = rows s"
  by (simp_all add: rows_def fun_eq_iff)

lemma content_update [simp]:
  "content (s\<lparr>st_open := c\<rparr>) = content s" "content (s\<lparr>st_idx := i\<rparr>) = content s"
  "content (s\<lparr>st_dirs := ds\<rparr>) = content s"
  by (simp_all add: content_def fun_eq_iff)

lemma storage_okD:
  assumes "storage_ok s"
  shows "lru_inv (\<lambda>_. 1) (\<lambda>_. True) (st_open s)"
    and "st_idx s p = Some db \<Longrightarrow> db_tables db \<or> db_rows db = []"
    and "x \<in> set (bindings (st_open s)) \<Longrightarrow> handle_ok s x"
    and "b \<in> bases \<Longrightarrow> distinct (map asset_id (rows s (dir, b @ ''.idx'')))"
    and "b \<in> bases \<Longrightarrow> list_all (row_ok (content s (dir, b @ ''.data''))) (rows s (dir, b @ ''.idx''))"
  using assms unfolding storage_ok_def by blast+

lemma set_open_ok:
  assumes "storage_ok s" and "lru_inv (\<lambda>_. 1) (\<lambda>_. True) c"
    and "\<And>x. x \<in> set (bindings c) \<Longrightarrow> handle_ok s x"
  shows "storage_ok (s\<lparr>st_open := c\<rparr>)" and "same_files s (s\<lparr>st_open := c\<rparr>)"
  using assms by (simp_all add: storage_ok_def same_files_def)

lemma set_idx_ok:
  assumes "storage_ok s" and "db_rows db = rows s p" and "db_tables db \<or> db_rows db = []"
    and "\<And>db'. st_idx s p = Some db' \<Longrightarrow> db_tables db' \<Longrightarrow> db_tables db"
  shows "storage_ok (s\<lparr>st_idx := (st_idx s)(p \<mapsto> db)\<rparr>)"
    and "same_files s (s\<lparr>st_idx := (st_idx s)(p \<mapsto> db)\<rparr>)"
proof -
  let ?s = "s\<lparr>st_idx := (st_idx s)(p \<mapsto> db)\<rparr>"
  have r: "rows ?s = rows s"
    using assms(2) by (auto simp: rows_def fun_eq_iff)
  have "handle_ok ?s x" if "handle_ok s x" for x
    using that assms(4) by (auto simp: handle_ok_def path_string_def)
  then show "storage_ok ?s"
    using assms(1,3) by (simp add: storage_ok_def r)
  show "same_files s ?s" by (simp add: same_files_def r)
qed

lemma set_promote: "set (promote k xs) \<subseteq> set xs"
  by (auto simp: promote_def dest: map_of_SomeD split: option.splits)

lemma set_trim: "set (trim w m xs) \<subseteq> set xs"
proof (induction w m xs rule: trim.induct)
  case (1 w m xs)
  have "set (butlast xs) \<subseteq> set xs" by (auto dest: in_set_butlastD)
  with 1 show ?case by (subst trim.simps) auto
qed

lemma sql_check_simps [simp]:
  "io_sql io p c = None \<Longrightarrow> sql_check io p c = areturn ()"
  "io_sql io p c = Some (m, k) \<Longrightarrow> sql_check io p c = araise (SQLiteError m k)"
  by (simp_all add: sql_check_def)

lemma initializeDatabase_cases:
  "(\<exists>e. initializeDatabase io p s = (Inl e, s)) \<and> io_sql io p \<noteq> (\<lambda>_. None)
   \<or> initializeDatabase io p s = (Inr (), s\<lparr>st_idx := (st_idx s)(p \<mapsto> \<lparr>db_tables = True, db_rows = []\<rparr>)\<rparr>)"
proof (cases "\<exists>c \<in> {SqlBegin, SqlCreateVersions, SqlCreateIndex, SqlInsertVersion, SqlCommit}. io_sql io p c \<noteq> None")
  case True
  then have "io_sql io p \<noteq> (\<lambda>_. None)" by auto
  moreover have "\<exists>e. initializeDatabase io p s = (Inl e, s)"
    using True by (auto simp: initializeDatabase_def transaction_def abind_def sql_check_def split: option.splits)
  ultimately show ?thesis by blast
next
  case False
  then have "io_sql io p SqlBegin = None" "io_sql io p SqlCreateVersions = None" "io_sql io p SqlCreateIndex = None"
    "io_sql io p SqlInsertVersion = None" "io_sql io p SqlCommit = None" by blast+
  then show ?thesis by (simp add: initializeDatabase_def transaction_def abind_assoc)
qed

lemma SQLiteIndexFile_new_ok:
  assumes "storage_ok s"
  shows "\<exists>r s'. SQLiteIndexFile_new io p s = (r, s') \<and> storage_ok s' \<and> same_files s s'
    \<and> st_open s' = st_open s
    \<and> (r = Inr p \<and> (\<exists>db. st_idx s' p = Some db \<and> db_tables db)
       \<or> (\<exists>e. r = Inl e) \<and> (io_sql io p \<noteq> (\<lambda>_. None) \<or> fst p \<notin> st_dirs s \<and> st_idx s p = None))"
proof (cases "io_sql io p SqlOpen = None \<and> (fst p \<in> st_dirs s \<or> st_idx s p \<noteq> None) \<and> io_sql io p SqlVersion = None")
  case False
  define t where "t = (if st_idx s p = None then s\<lparr>st_idx := (st_idx s)(p \<mapsto> empty_db)\<rparr> else s)"
  have t: "storage_ok t" "same_files s t" "st_open t = st_open s"
    using set_idx_ok [of s empty_db p] assms by (auto simp: t_def empty_db_def rows_def)
  have "\<exists>e. SQLiteIndexFile_new io p s = (Inl e, s) \<or> SQLiteIndexFile_new io p s = (Inl e, t)"
    using False by (auto simp: SQLiteIndexFile_new_def sql_check_def abind_def t_def split: option.splits)
  moreover have "io_sql io p \<noteq> (\<lambda>_. None) \<or> fst p \<notin> st_dirs s \<and> st_idx s p = None" using False by auto
  ultimately show ?thesis using t assms by auto
next
  case True
  define t where "t = (if st_idx s p = None then s\<lparr>st_idx := (st_idx s)(p \<mapsto> empty_db)\<rparr> else s)"
  have t: "storage_ok t" "same_files s t" "st_open t = st_open s" "\<exists>db. st_idx t p = Some db"
    using set_idx_ok [of s empty_db p] assms by (auto simp: t_def empty_db_def rows_def)
  obtain db where db: "st_idx t p = Some db" using t(4) by blast
  let ?u = "t\<lparr>st_idx := (st_idx t)(p \<mapsto> \<lparr>db_tables = True, db_rows = []\<rparr>)\<rparr>"
  have run: "SQLiteIndexFile_new io p s = (if db_tables db then (Inr p, t) else abind (initializeDatabase io p) (\<lambda>_. areturn p) t)"
    using True db by (auto simp: SQLiteIndexFile_new_def abind_assoc t_def [symmetric])
  show ?thesis
  proof (cases "db_tables db")
    case True
    then show ?thesis using run t db by auto
  next
    case False
    then have u: "storage_ok ?u" "same_files t ?u"
      using set_idx_ok [OF t(1), of "\<lparr>db_tables = True, db_rows = []\<rparr>" p] db storage_okD(2) [OF t(1) db]
      by (simp_all add: rows_def)
    show ?thesis
      using initializeDatabase_cases [of io p t] run False t u same_files_trans [OF t(2) u(2)]
      by (auto simp: abind_def)
  qed
qed

lemma openIndexFile_ok:
  assumes "storage_ok s" and "b \<in> bases" and p: "p = (dir, b @ ''.idx'')"
  shows "\<exists>r s'. openIndexFile io p s = (r, s') \<and> storage_ok s' \<and> same_files s s'
    \<and> (r = Inr p \<or> (\<exists>e. r = Inl e)
         \<and> (io_sql io p \<noteq> (\<lambda>_. None) \<or> dir \<notin> st_dirs s \<and> st_idx s p = None))"
proof -
  let ?k = "path_string s p"
  obtain c where c: "fetch (st_open s) ?k True = Inr (c, map_of (bindings (st_open s)) ?k)"
    "lru_inv (\<lambda>_. 1) (\<lambda>_. True) c" "bindings c = promote ?k (bindings (st_open s))"
    using entry_count.fetch_sim(1) [OF storage_okD(1) [OF assms(1)], of ?k True] by auto
  have h: "x \<in> set (bindings c) \<Longrightarrow> handle_ok s x" for x
    using storage_okD(3) [OF assms(1), of x] set_promote [of ?k "bindings (st_open s)"] c(3) by auto
  note s1 = set_open_ok [OF assms(1) c(2) h]
  show ?thesis
  proof (cases "map_of (bindings (st_open s)) ?k")
    case (Some q)
    then have "handle_ok s (?k, q)"
      using storage_okD(3) [OF assms(1)] map_of_SomeD by fast
    then have "q = p"
      using path_string_inject [of s p q] base_name [OF assms(2)] base_name
      by (auto simp: handle_ok_def p)
    then show ?thesis
      using c(1) Some s1 by (simp add: openIndexFile_def Let_def)
  next
    case None
    obtain r t where t: "SQLiteIndexFile_new io p (s\<lparr>st_open := c\<rparr>) = (r, t)" "storage_ok t"
      "same_files (s\<lparr>st_open := c\<rparr>) t" "st_open t = st_open (s\<lparr>st_open := c\<rparr>)"
      "r = Inr p \<and> (\<exists>db. st_idx t p = Some db \<and> db_tables db)
       \<or> (\<exists>e. r = Inl e)
         \<and> (io_sql io p \<noteq> (\<lambda>_. None) \<or> fst p \<notin> st_dirs (s\<lparr>st_open := c\<rparr>) \<and> st_idx (s\<lparr>st_open := c\<rparr>) p = None)"
      using SQLiteIndexFile_new_ok [OF s1(1), of io p] by blast
    note st = same_files_trans [OF s1(2) t(3)]
    from t(5) show ?thesis
    proof
      assume ok: "r = Inr p \<and> (\<exists>db. st_idx t p = Some db \<and> db_tables db)"
      obtain c' where c': "lru_insert EntryCountCalculator c ?k p = Inr c'"
        "lru_inv (\<lambda>_. 1) (\<lambda>_. True) c'"
        "bindings c' = trim (\<lambda>_. 1) (lru_max_size c) ((?k, p) # without ?k (bindings c))"
        using entry_count.insert_sim [OF c(2), where d = p and k = ?k] by auto
      have "handle_ok t (?k, p)"
        using ok st assms(2) by (auto simp: handle_ok_def path_string_def same_files_def p)
      moreover have "handle_ok t x" if "x \<in> set (bindings c)" for x
        using storage_okD(3) [OF t(2)] t(4) that by simp
      moreover have "x = (?k, p) \<or> x \<in> set (bindings c)" if "x \<in> set (bindings c')" for x
        using subsetD [OF set_trim that [unfolded c'(3)]] by auto
      ultimately have "handle_ok t x" if "x \<in> set (bindings c')" for x
        using that by blast
      from set_open_ok [OF t(2) c'(2) this] show ?thesis
        using ok c(1) None t(1,4) c'(1) same_files_trans [OF st]
        by (simp add: openIndexFile_def Let_def abind_def)
    next
      assume "(\<exists>e. r = Inl e)
         \<and> (io_sql io p \<noteq> (\<lambda>_. None) \<or> fst p \<notin> st_dirs (s\<lparr>st_open := c\<rparr>) \<and> st_idx (s\<lparr>st_open := c\<rparr>) p = None)"
      then show ?thesis
        using c(1) None t(1,2) st p by (auto simp: openIndexFile_def Let_def abind_def)
    qed
  qed
qed

section \<open>Reading and writing records\<close>

definition io_ok :: "Io \<Rightarrow> bool" where
  "io_ok io \<longleftrightarrow> io_open io \<and> io_stat io \<and> io_seek io \<and> io_mkdir io = Created \<and> io_remove io = (\<lambda>_. True)
     \<and> (\<forall>c. \<exists>n \<ge> 2 ^ 32. io_read io c = Some n) \<and> (\<forall>c. \<exists>n \<ge> 2 ^ 32. io_write io c = Some n)
     \<and> io_sql io = (\<lambda>_ _. None)"

lemma posix_read_same: "changes (=) (posix_read io c f n)"
  by (auto simp: changes_def posix_read_def Let_def split: option.split)

lemma posix_seek_same: "changes (=) (posix_seek io f n)"
  by (auto simp: changes_def posix_seek_def)

lemma posix_size_same: "changes (=) (posix_size io f)"
  by (auto simp: changes_def posix_size_def)

lemma posix_open_read_same: "changes (=) (posix_open io p Read)"
  by (auto simp: changes_def posix_open_def)

lemma getAssetAtPosition_same: "changes (=) (getAssetAtPosition io p pos)"
  unfolding getAssetAtPosition_def
  by (intro changes_abind changes_if changes_pure posix_read_same posix_seek_same posix_open_read_same)
    (auto simp: Let_def split: prod.split intro!: changes_abind changes_pure posix_read_same)

lemma getAssetAtPosition_ok:
  assumes "io_ok io" and "fst p \<in> st_dirs s" and "0 \<le> pos"
    and "record_at (content s p) (nat pos) = Some a"
  shows "getAssetAtPosition io p pos s = (Inr a, s)"
proof -
  let ?c = "content s p" and ?p = "nat pos"
  let ?n = "unat (of_be32 (take 4 (drop ?p ?c)))"
  have r: "?p + 4 \<le> length ?c" "?n \<noteq> 0" "?p + 4 + ?n \<le> length ?c" "a = Asset (take ?n (drop (?p + 4) ?c))"
    using assms(4) by (auto simp: record_at_def Let_def split: if_splits)
  have there: "st_data s p \<noteq> None"
    using r(1) by (auto simp: content_def split: option.splits)
  obtain m1 m2 where m: "io_read io ReadSize = Some m1" "io_read io ReadData = Some m2"
    "2 ^ 32 \<le> m1" "2 ^ 32 \<le> m2"
    using assms(1) by (metis io_ok_def)
  have "?n < 2 ^ LENGTH(32)" by (rule unsigned_less)
  then have k: "min m1 4 = 4" "min m2 ?n = ?n" using m(3,4) by simp_all
  let ?f = "\<lambda>n. \<lparr>pf_path = p, pf_off = n\<rparr>"
  have 1: "posix_open io p Read s = (Inr (?f 0), s)"
    using assms(1,2) there by (auto simp: posix_open_def io_ok_def)
  have 2: "posix_seek io (?f 0) pos s = (Inr (?f ?p), s)"
    using assms(1,3) by (simp add: posix_seek_def io_ok_def)
  have 3: "posix_read io ReadSize (?f ?p) 4 s = (Inr (?f (?p + 4), take 4 (drop ?p ?c)), s)"
    using m(1) k(1) r(1) by (simp add: posix_read_def Let_def)
  have 4: "posix_read io ReadData (?f (?p + 4)) ?n s = (Inr (?f (?p + 4 + ?n), getData a), s)"
    using m(2) k(2) r(3,4) by (simp add: posix_read_def Let_def)
  show ?thesis
    using r(2) by (simp add: getAssetAtPosition_def abind_def 1 2 3 4 Let_def)
qed

text \<open>
  Whatever the calls answer, writing an asset only appends to its data file.
\<close>

definition appends :: "path \<Rightarrow> Storage \<Rightarrow> Storage \<Rightarrow> bool" where
  "appends p s s' \<longleftrightarrow> s' = s \<or> (\<exists>d. s' = s\<lparr>st_data := (st_data s)(p \<mapsto> content s p @ d)\<rparr>)"

lemma content_data [simp]:
  "content (s\<lparr>st_data := (st_data s)(p \<mapsto> c)\<rparr>) q = (if q = p then c else content s q)"
  by (simp add: content_def)

lemma appends_refl: "appends p s s"
  by (simp add: appends_def)

lemma appends_write: "appends p s (s\<lparr>st_data := (st_data s)(p \<mapsto> content s p @ d)\<rparr>)"
  by (auto simp: appends_def)

lemma appends_trans: "appends p s t \<Longrightarrow> appends p t u \<Longrightarrow> appends p s u"
  by (auto simp: appends_def)

lemma appends_content: "appends p s s' \<Longrightarrow> \<exists>d. content s' p = content s p @ d"
  by (auto simp: appends_def intro: exI [of _ "[]"])

lemma posix_write_append:
  assumes "pf_off f = length (content s (pf_path f))"
  shows "(\<exists>s' msg. posix_write io c f d s = (Inl (AssetStorageError msg True), s') \<and> appends (pf_path f) s s'
            \<and> \<not> (\<exists>n \<ge> length d. io_write io c = Some n))
    \<or> posix_write io c f d s = (Inr (f\<lparr>pf_off := pf_off f + length d\<rparr>),
         s\<lparr>st_data := (st_data s)(pf_path f \<mapsto> content s (pf_path f) @ d)\<rparr>)"
proof (cases "io_write io c")
  case None
  then show ?thesis by (simp add: posix_write_def posix_error_def appends_refl)
next
  case (Some n)
  then show ?thesis
    using assms by (cases "length d \<le> n")
      (auto simp: posix_write_def Let_def overwrite_def posix_error_def intro: appends_write)
qed

lemma io_ok_write: "io_ok io \<Longrightarrow> k \<le> 2 ^ 32 \<Longrightarrow> \<exists>n \<ge> k. io_write io c = Some n"
  unfolding io_ok_def by (meson order_trans)

lemma length_data_magic [simp]: "length data_magic = 8"
  by (simp add: data_magic_def)

lemma open_for_append_ok:
  "(\<exists>msg s'. open_for_append io p s = (Inl (AssetStorageError msg True), s') \<and> appends p s s'
      \<and> \<not> (io_ok io \<and> fst p \<in> st_dirs s))
   \<or> (\<exists>f s'. open_for_append io p s
        = (Inr (f, if st_data s p = None then 8 else int (length (content s p))), s') \<and> appends p s s'
      \<and> pf_path f = p \<and> pf_off f = length (content s' p) \<and> st_data s' p \<noteq> None
      \<and> content s' p = (if st_data s p = None then data_magic else content s p))"
proof (cases "io_open io \<and> fst p \<in> st_dirs s")
  case False
  then show ?thesis
    by (auto simp: open_for_append_def posix_open_def abind_def posix_error_def io_ok_def appends_refl)
next
  case True
  let ?f = "\<lparr>pf_path = p, pf_off = 0\<rparr>"
  show ?thesis
  proof (cases "st_data s p")
    case None
    let ?s = "s\<lparr>st_data := (st_data s)(p \<mapsto> [])\<rparr>"
    have o: "posix_open io p Write s = (Inr ?f, ?s)"
      using True None by (simp add: posix_open_def)
    have a: "appends p s ?s" using appends_write [of p s "[]"] None by (simp add: content_def)
    have c: "content s p = []" using None by (simp add: content_def)
    have m: "appends p s (s\<lparr>st_data := (st_data s)(p \<mapsto> data_magic)\<rparr>)"
      using appends_write [of p s data_magic] c by simp
    have "pf_off ?f = length (content ?s (pf_path ?f))" by simp
    from posix_write_append [OF this, of io WriteMagic data_magic] show ?thesis
    proof (elim disjE exE conjE)
      fix t msg assume w: "posix_write io WriteMagic ?f data_magic ?s = (Inl (AssetStorageError msg True), t)"
        and t: "appends (pf_path ?f) ?s t" and n: "\<not> (\<exists>n \<ge> length data_magic. io_write io WriteMagic = Some n)"
      have "open_for_append io p s = (Inl (AssetStorageError msg True), t)"
        using None by (simp add: open_for_append_def abind_def o w)
      moreover have "appends p s t" using appends_trans [OF a] t by simp
      moreover have "\<not> io_ok io" using n io_ok_write [of io 8 WriteMagic] by auto
      ultimately show ?thesis by blast
    qed (use None m in \<open>auto simp: open_for_append_def abind_def o\<close>)
  next
    case (Some c)
    have o: "posix_open io p Write s = (Inr ?f, s)"
      using True Some by (simp add: posix_open_def)
    show ?thesis
      using Some
      by (auto simp: open_for_append_def o abind_def posix_size_def posix_seek_def
          posix_error_def io_ok_def appends_refl content_def)
  qed
qed

lemma write_record_ok:
  assumes "pf_off f = length (content s (pf_path f))"
  shows "(\<exists>e s'. write_record io f a s = (Inl e, s') \<and> appends (pf_path f) s s'
      \<and> \<not> (io_ok io \<and> getData a \<noteq> [] \<and> length (getData a) < 2 ^ 32))
    \<or> (\<exists>s'. write_record io f a s = (Inr (), s') \<and> getData a \<noteq> [] \<and> length (getData a) < 2 ^ 32
      \<and> s' = s\<lparr>st_data := (st_data s)(pf_path f \<mapsto>
            content s (pf_path f) @ be32 (of_nat (length (getData a))) @ getData a)\<rparr>)"
proof (cases "length (getData a) < 2 ^ 32")
  case False
  then show ?thesis by (simp add: write_record_def numeric_cast_u32_def appends_refl)
next
  case True
  let ?n = "of_nat (length (getData a)) :: u32"
  have start: "write_record io f a s = abind (posix_write io WriteSize f (be32 ?n)) (\<lambda>f.
     if getData a = [] then araise UndefinedBehaviour
     else abind (posix_write io WriteData f (getData a)) (\<lambda>f. areturn ())) s"
    using True by (simp add: write_record_def numeric_cast_u32_def)
  from posix_write_append [OF assms, of io WriteSize "be32 ?n"] show ?thesis
  proof (elim disjE exE conjE)
    fix t msg assume "posix_write io WriteSize f (be32 ?n) s = (Inl (AssetStorageError msg True), t)"
      and "appends (pf_path f) s t" and "\<not> (\<exists>n \<ge> length (be32 ?n). io_write io WriteSize = Some n)"
    then show ?thesis
      using start io_ok_write [of io 4 WriteSize] by (auto simp: abind_def)
  next
    let ?f = "f\<lparr>pf_off := pf_off f + length (be32 ?n)\<rparr>"
    let ?s = "s\<lparr>st_data := (st_data s)(pf_path f \<mapsto> content s (pf_path f) @ be32 ?n)\<rparr>"
    assume w: "posix_write io WriteSize f (be32 ?n) s = (Inr ?f, ?s)"
    have a1: "appends (pf_path f) s ?s" by (rule appends_write)
    have "pf_off ?f = length (content ?s (pf_path ?f))" using assms by simp
    from posix_write_append [OF this, of io WriteData "getData a"] show ?thesis
    proof (elim disjE exE conjE)
      fix t msg assume w2: "posix_write io WriteData ?f (getData a) ?s = (Inl (AssetStorageError msg True), t)"
        and t: "appends (pf_path ?f) ?s t"
        and n: "\<not> (\<exists>n \<ge> length (getData a). io_write io WriteData = Some n)"
      have "\<not> io_ok io" using n io_ok_write [of io "length (getData a)" WriteData] True by auto
      then show ?thesis
        using start w w2 a1 appends_trans [OF a1, of t] t by (cases "getData a = []") (auto simp: abind_def)
    next
      assume "posix_write io WriteData ?f (getData a) ?s = (Inr (?f\<lparr>pf_off := pf_off ?f + length (getData a)\<rparr>),
         ?s\<lparr>st_data := (st_data ?s)(pf_path ?f \<mapsto> content ?s (pf_path ?f) @ getData a)\<rparr>)"
      then show ?thesis
        using start w a1 True by (cases "getData a = []") (auto simp: abind_def)
    qed
  qed
qed

lemma writeNewAsset_ok:
  "(\<exists>e s'. writeNewAsset io p a s = (Inl e, s') \<and> appends p s s'
      \<and> \<not> (io_ok io \<and> fst p \<in> st_dirs s \<and> getData a \<noteq> [] \<and> length (getData a) < 2 ^ 32))
   \<or> (\<exists>pos s'. writeNewAsset io p a s = (Inr pos, s') \<and> appends p s s'
      \<and> pos = (if st_data s p = None then 8 else int (length (content s p)))
      \<and> record_at (content s' p) (nat pos) = Some a)"
  using open_for_append_ok [of io p s]
proof (elim disjE exE conjE)
  fix msg t assume "open_for_append io p s = (Inl (AssetStorageError msg True), t)" "appends p s t"
    "\<not> (io_ok io \<and> fst p \<in> st_dirs s)"
  then show ?thesis by (auto simp: writeNewAsset_def abind_def)
next
  let ?pos = "if st_data s p = None then 8 else int (length (content s p))"
  fix f t assume o: "open_for_append io p s = (Inr (f, ?pos), t)" "appends p s t" "pf_path f = p"
    "pf_off f = length (content t p)" "content t p = (if st_data s p = None then data_magic else content s p)"
  from write_record_ok [of f t io a] o(3,4)
  consider e u where "write_record io f a t = (Inl e, u)" "appends p t u"
      "\<not> (io_ok io \<and> getData a \<noteq> [] \<and> length (getData a) < 2 ^ 32)"
    | "getData a \<noteq> []" "length (getData a) < 2 ^ 32" "write_record io f a t = (Inr (), t\<lparr>st_data :=
        (st_data t)(p \<mapsto> content t p @ be32 (of_nat (length (getData a))) @ getData a)\<rparr>)"
    by auto
  then show ?thesis
  proof cases
    case 1
    then show ?thesis using o(1) appends_trans [OF o(2) 1(2)] by (auto simp: writeNewAsset_def abind_def)
  next
    case 2
    have "nat ?pos = length (content t p)" using o(5) by auto
    then show ?thesis
      using 2(3) o(1) appends_trans [OF o(2) appends_write] record_at_written [OF 2(1,2), of "content t p"]
      by (auto simp: writeNewAsset_def abind_def)
  qed
qed
section \<open>Databases\<close>

lemma filter_absent: "u \<notin> asset_id ` set rs \<Longrightarrow> filter (\<lambda>r. asset_id r = u) rs = []"
  by (induction rs) auto

lemma lookup_rowD:
  assumes "lookup_row rs uuid = Some q"
  shows "q \<noteq> INVALID_POSITION" and "\<exists>r \<in> set rs. asset_id r = uuid \<and> deleted r \<noteq> 1 \<and> position r = q"
proof -
  obtain r xs where f: "filter (\<lambda>r. asset_id r = uuid) rs = r # xs"
    using assms by (cases "filter (\<lambda>r. asset_id r = uuid) rs") (simp_all add: lookup_row_def)
  then have r: "r \<in> set rs" "asset_id r = uuid"
    by (metis (mono_tags, lifting) filter_eq_ConsD in_set_conv_decomp)+
  from f assms have q: "deleted r \<noteq> 1" "q \<noteq> INVALID_POSITION" "position r = q"
    by (simp_all add: lookup_row_def split: if_splits)
  from q(2) show "q \<noteq> INVALID_POSITION" .
  from q r show "\<exists>r \<in> set rs. asset_id r = uuid \<and> deleted r \<noteq> 1 \<and> position r = q" by blast
qed

lemma lookup_row_absent: "uuid \<notin> asset_id ` set rs \<Longrightarrow> lookup_row rs uuid = None"
  by (simp add: lookup_row_def filter_absent)

lemma lookup_row_snoc:
  assumes "asset_id r \<notin> asset_id ` set rs"
  shows "lookup_row (rs @ [r]) u = (if u = asset_id r
       then (if deleted r = 1 \<or> position r = INVALID_POSITION then None else Some (position r))
       else lookup_row rs u)"
  using filter_absent [OF assms] by (simp add: lookup_row_def)

lemma findAssetPosition_ok:
  "sql_text uuid \<Longrightarrow> io_sql io p SqlFind = None \<Longrightarrow> findAssetPosition io p uuid s
     = (Inr (case lookup_row (rows s p) uuid of None \<Rightarrow> INVALID_POSITION | Some q \<Rightarrow> q), s)"
  by (auto simp: findAssetPosition_def lookup_row_def split: list.split)

lemma findAssetPosition_fails:
  "\<not> sql_text uuid \<or> io_sql io p SqlFind \<noteq> None \<Longrightarrow> \<exists>e. findAssetPosition io p uuid s = (Inl e, s)"
  by (auto simp: findAssetPosition_def)

lemma stored_row:
  assumes "storage_ok s" and "b \<in> bases" and "lookup_row (rows s (dir, b @ ''.idx'')) uuid = Some q"
  shows "0 \<le> q \<and> q \<noteq> INVALID_POSITION \<and> (\<exists>a. record_at (content s (dir, b @ ''.data'')) (nat q) = Some a)"
  using lookup_rowD [OF assms(3)] storage_okD(5) [OF assms(1,2), of dir]
  by (auto simp: list_all_iff row_ok_def)

definition database :: "string \<Rightarrow> string \<Rightarrow> VFSDatabase" where
  "database dir b = \<lparr>vd_index = (dir, b @ ''.idx''), vd_data = (dir, b @ ''.data'')\<rparr>"

lemma database_sel [simp]:
  "vd_index (database dir b) = (dir, b @ ''.idx'')" "vd_data (database dir b) = (dir, b @ ''.data'')"
  by (simp_all add: database_def)

lemma db_getAsset_ok:
  assumes "storage_ok s" and "b \<in> bases" and "io_ok io" and "sql_text uuid" and "dir \<in> st_dirs s"
  shows "db_getAsset io (database dir b) uuid s = (Inr (db_stored s dir b uuid), s)"
proof (cases "lookup_row (rows s (dir, b @ ''.idx'')) uuid")
  case None
  then show ?thesis
    using assms(3,4) by (simp add: db_getAsset_def abind_def findAssetPosition_ok io_ok_def db_stored_def)
next
  case (Some q)
  then obtain a where "0 \<le> q" "q \<noteq> INVALID_POSITION"
    "record_at (content s (dir, b @ ''.data'')) (nat q) = Some a"
    using stored_row [OF assms(1,2)] by blast
  then show ?thesis
    using assms(3-5) Some getAssetAtPosition_ok [OF assms(3), of "(dir, b @ ''.data'')" s q a]
    by (simp add: db_getAsset_def abind_def findAssetPosition_ok io_ok_def db_stored_def)
qed

lemma appends_ok:
  assumes "storage_ok s" and "b \<in> bases" and "appends (dir, b @ ''.data'') s t"
  shows "storage_ok t" and "rows t = rows s"
    and "b' \<in> bases \<Longrightarrow> db_stored t dir' b' v = db_stored s dir' b' v"
proof -
  from assms(3) show r: "rows t = rows s" by (auto simp: appends_def)
  have c: "\<exists>d. content t (dir', b' @ ''.data'') = content s (dir', b' @ ''.data'') @ d" for dir' b'
    using assms(3) by (auto simp: appends_def intro: exI [of _ "[]"])
  have h: "handle_ok t x = handle_ok s x" "st_idx t = st_idx s" "st_open t = st_open s" for x
    using assms(3) by (auto simp: appends_def handle_ok_def path_string_def)
  have "list_all (row_ok (content t (dir', b' @ ''.data''))) (rows s (dir', b' @ ''.idx''))"
    if b': "b' \<in> bases" for dir' b'
    using storage_okD(5) [OF assms(1) b', of dir'] c [of dir' b'] row_ok_append
    by (auto simp: list_all_iff)
  then show "storage_ok t"
    using assms(1) by (simp add: storage_ok_def r h)
  show "db_stored t dir' b' v = db_stored s dir' b' v" if b': "b' \<in> bases"
  proof (cases "lookup_row (rows s (dir', b' @ ''.idx'')) v")
    case (Some q)
    then obtain a where "record_at (content s (dir', b' @ ''.data'')) (nat q) = Some a"
      using stored_row [OF assms(1) b'] by blast
    then show ?thesis
      using c [of dir' b'] record_at_append Some by (fastforce simp: db_stored_def r)
  qed (simp add: db_stored_def r)
qed

lemma rows_idx [simp]:
  "rows (s\<lparr>st_idx := (st_idx s)(p \<mapsto> db)\<rparr>) q = (if q = p then db_rows db else rows s q)"
  by (simp add: rows_def)

lemma new_row_ok:
  assumes "storage_ok s" and "b \<in> bases" and p: "p = (dir, b @ ''.idx'')"
    and "asset_id r \<notin> asset_id ` set (rows s p)"
    and "row_ok (content s (dir, b @ ''.data'')) r"
  shows "storage_ok (s\<lparr>st_idx := (st_idx s)(p \<mapsto> \<lparr>db_tables = True, db_rows = rows s p @ [r]\<rparr>)\<rparr>)"
    (is "storage_ok ?s")
proof -
  have h: "handle_ok s x \<Longrightarrow> handle_ok ?s x" for x
    by (auto simp: handle_ok_def path_string_def)
  have "distinct (map asset_id (rows ?s (dir', b' @ ''.idx'')))
      \<and> list_all (row_ok (content ?s (dir', b' @ ''.data''))) (rows ?s (dir', b' @ ''.idx''))"
    if b': "b' \<in> bases" for dir' b'
    using storage_okD(4,5) [OF assms(1) b', of dir'] assms(4,5) by (auto simp: p)
  moreover have "db_tables db \<or> db_rows db = []" if "st_idx ?s q = Some db" for q db
    using that storage_okD(2) [OF assms(1), of q db] by (auto split: if_splits)
  moreover have "handle_ok ?s x" if "x \<in> set (bindings (st_open s))" for x
    by (rule h [OF storage_okD(3) [OF assms(1) that]])
  ultimately show ?thesis
    using storage_okD(1) [OF assms(1)] unfolding storage_ok_def by simp
qed

abbreviation row_ids :: "Storage \<Rightarrow> path \<Rightarrow> string set" where
  "row_ids s p \<equiv> asset_id ` set (rows s p)"

abbreviation row_keys :: "Storage \<Rightarrow> path \<Rightarrow> (string \<times> int) set" where
  "row_keys s p \<equiv> (\<lambda>r. (asset_id r, deleted r)) ` set (rows s p)"

definition recorded :: "string \<Rightarrow> string \<Rightarrow> Asset \<Rightarrow> string \<Rightarrow> int \<Rightarrow> Storage \<Rightarrow> Storage \<Rightarrow> bool" where
  "recorded dir b a u pos s s' \<longleftrightarrow> storage_ok s' \<and> st_data s' = st_data s
     \<and> (\<forall>p. row_keys s' p = row_keys s p \<union> (if p = (dir, b @ ''.idx'') then {(u, 0)} else {}))
     \<and> (\<forall>dir' b' v. db_stored s' dir' b' v =
            (if dir' = dir \<and> b' = b \<and> v = u \<and> pos \<noteq> INVALID_POSITION then Some a
             else db_stored s dir' b' v))"

lemma recordAssetPosition_ok:
  assumes "storage_ok s" and "b \<in> bases" and "Asset_getUUID a = Inr u" and "0 \<le> pos"
    and "record_at (content s (dir, b @ ''.data'')) (nat pos) = Some a"
  shows "(\<exists>e. recordAssetPosition io (dir, b @ ''.idx'') a pos s = (Inl e, s)
      \<and> \<not> (io_ok io \<and> sql_text u \<and> 33 \<le> length (getData a) \<and> u \<notin> asset_id ` set (rows s (dir, b @ ''.idx''))))
    \<or> (\<exists>s'. recordAssetPosition io (dir, b @ ''.idx'') a pos s = (Inr (), s') \<and> recorded dir b a u pos s s')"
proof (cases "getType a")
  case (Inl e)
  then have "\<not> 33 \<le> length (getData a)" by (auto simp: getType_def at_def split: if_splits)
  then show ?thesis using assms(3) Inl by (simp add: recordAssetPosition_def)
next
  case (Inr ty)
  let ?p = "(dir, b @ ''.idx'')"
  let ?r = "\<lparr>asset_id = u, position = pos, row_type = uint ty, deleted = 0\<rparr>"
  let ?db = "\<lparr>db_tables = True, db_rows = rows s ?p @ [?r]\<rparr>"
  let ?s = "s\<lparr>st_idx := (st_idx s)(?p \<mapsto> ?db)\<rparr>"
  show ?thesis
  proof (cases "sql_text u \<and> io_sql io ?p SqlRecord = None \<and> u \<notin> asset_id ` set (rows s ?p)")
    case False
    then show ?thesis
      using assms(3) Inr
      by (cases "io_sql io ?p SqlRecord") (auto simp: recordAssetPosition_def io_ok_def)
  next
    case True
    have run: "recordAssetPosition io ?p a pos s = (Inr (), ?s)"
      using True assms(3) Inr by (simp add: recordAssetPosition_def)
    have "storage_ok ?s"
      using assms True by (intro new_row_ok) (auto simp: row_ok_def)
    moreover have "db_stored ?s dir' b' v = (if dir' = dir \<and> b' = b \<and> v = u \<and> pos \<noteq> INVALID_POSITION
        then Some a else db_stored s dir' b' v)" for dir' b' v
      using True assms(5) lookup_row_absent [of u "rows s ?p"]
      by (simp add: db_stored_def lookup_row_snoc cong: option.case_cong)
    ultimately show ?thesis using run by (simp add: recorded_def)
  qed
qed

definition storable :: "Asset \<Rightarrow> string \<Rightarrow> bool" where
  "storable a u \<longleftrightarrow> Asset_getUUID a = Inr u \<and> sql_text u \<and> 34 \<le> length (getData a)
     \<and> length (getData a) < 2 ^ 32"

text \<open>
  One database: a store that fails changes no asset; one that succeeds adds the asset unless the
  data file was empty, when its position is the invalid one.
\<close>

definition store_outcome :: "string \<Rightarrow> string \<Rightarrow> Asset \<Rightarrow> string \<Rightarrow> Storage \<Rightarrow> unit result \<Rightarrow> Storage \<Rightarrow> bool" where
  "store_outcome dir b a u s r s' \<longleftrightarrow> storage_ok s'
     \<and> (\<forall>dir' v. \<forall>b' \<in> bases. db_stored s' dir' b' v =
          (if dir' = dir \<and> b' = b \<and> v = u \<and> \<not> isl r \<and> st_data s (dir, b @ ''.data'') \<noteq> Some []
           then Some a else db_stored s dir' b' v))
     \<and> (\<forall>p. row_keys s' p \<subseteq> row_keys s p \<union> (if p = (dir, b @ ''.idx'') \<and> \<not> isl r then {(u, 0)} else {}))
     \<and> (\<forall>p. \<not> isl r \<and> st_data s' p = Some [] \<longrightarrow> st_data s p = Some [])"

lemma store_outcomeD:
  assumes "store_outcome dir b a u s r s'"
  shows "storage_ok s'"
    and "b' \<in> bases \<Longrightarrow> db_stored s' dir' b' v =
          (if dir' = dir \<and> b' = b \<and> v = u \<and> \<not> isl r \<and> st_data s (dir, b @ ''.data'') \<noteq> Some []
           then Some a else db_stored s dir' b' v)"
    and "row_keys s' p \<subseteq> row_keys s p \<union> (if p = (dir, b @ ''.idx'') \<and> \<not> isl r then {(u, 0)} else {})"
    and "\<not> isl r \<and> st_data s' p = Some [] \<longrightarrow> st_data s p = Some []"
  using assms unfolding store_outcome_def by blast+

lemma appends_nonempty:
  assumes "appends p s t" and "record_at (content t p) n \<noteq> None"
  shows "st_data t q = Some [] \<Longrightarrow> st_data s q = Some []"
  using assms by (cases "q = p") (auto simp: appends_def record_at_def content_def Let_def split: if_splits)

lemma appends_pos:
  "(if st_data s p = None then 8 else int (length (content s p))) = INVALID_POSITION \<longleftrightarrow> st_data s p = Some []"
  by (auto simp: INVALID_POSITION_def content_def split: option.split)

lemma recorded_outcome:
  assumes "storage_ok s" and "b \<in> bases" and a: "appends (dir, b @ ''.data'') s t"
    and "record_at (content t (dir, b @ ''.data'')) n = Some a"
    and "recorded dir b a u (if st_data s (dir, b @ ''.data'') = None then 8
           else int (length (content s (dir, b @ ''.data'')))) t s'"
  shows "store_outcome dir b a u s (Inr ()) s'"
proof -
  note t = appends_ok [OF assms(1,2) a]
  note r = assms(5) [unfolded recorded_def appends_pos t(2)]
  have "st_data s' p = Some [] \<Longrightarrow> st_data s p = Some []" for p
    using appends_nonempty [OF a, of n p] assms(4) r by simp
  with r show ?thesis
    unfolding store_outcome_def using t(3) by simp
qed

lemma db_storeAsset_ok:
  assumes "storage_ok s" and "b \<in> bases" and "Asset_getUUID a = Inr u"
  shows "\<exists>r s'. db_storeAsset io (database dir b) a s = (r, s') \<and> store_outcome dir b a u s r s'
    \<and> (io_ok io \<and> storable a u \<and> dir \<in> st_dirs s \<and> u \<notin> asset_id ` set (rows s (dir, b @ ''.idx''))
       \<longrightarrow> \<not> isl r)"
proof -
  let ?i = "(dir, b @ ''.idx'')" and ?d = "(dir, b @ ''.data'')"
  have unchanged: "store_outcome dir b a u s (Inl e) s" for e
    using assms(1) by (simp add: store_outcome_def)
  show ?thesis
  proof (cases "sql_text u \<and> io_sql io ?i SqlFind = None \<and> lookup_row (rows s ?i) u = None")
    case False
    have "\<exists>e. db_storeAsset io (database dir b) a s = (Inl e, s)"
    proof (cases "sql_text u \<and> io_sql io ?i SqlFind = None")
      case True
      then obtain q where q: "lookup_row (rows s ?i) u = Some q" using False by auto
      then show ?thesis
        using True assms(3) lookup_rowD(1) [OF q]
        by (simp add: db_storeAsset_def db_assetExists_def abind_def findAssetPosition_ok)
    next
      case False
      then obtain e where "findAssetPosition io ?i u s = (Inl e, s)"
        using findAssetPosition_fails by blast
      then show ?thesis
        using assms(3) by (simp add: db_storeAsset_def db_assetExists_def abind_def)
    qed
    moreover have "\<not> (io_ok io \<and> storable a u \<and> u \<notin> asset_id ` set (rows s ?i))"
      using False lookup_row_absent [of u "rows s ?i"] by (auto simp: io_ok_def storable_def)
    ultimately show ?thesis using unchanged by blast
  next
    case True
    have start: "db_storeAsset io (database dir b) a s =
       abind (writeNewAsset io ?d a) (\<lambda>pos. recordAssetPosition io ?i a pos) s"
      using True assms(3)
      by (simp add: db_storeAsset_def db_assetExists_def abind_def findAssetPosition_ok)
    let ?pos = "if st_data s ?d = None then 8 else int (length (content s ?d))"
    from writeNewAsset_ok [of io ?d a s]
    consider e t where "writeNewAsset io ?d a s = (Inl e, t)" "appends ?d s t"
        "\<not> (io_ok io \<and> dir \<in> st_dirs s \<and> getData a \<noteq> [] \<and> length (getData a) < 2 ^ 32)"
      | t where "writeNewAsset io ?d a s = (Inr ?pos, t)" "appends ?d s t"
        "record_at (content t ?d) (nat ?pos) = Some a" by force
    then show ?thesis
    proof cases
      case 1
      then have "db_storeAsset io (database dir b) a s = (Inl e, t)"
        using start by (simp add: abind_def)
      moreover have "store_outcome dir b a u s (Inl e) t"
        using appends_ok [OF assms(1,2) 1(2)] by (simp add: store_outcome_def)
      ultimately show ?thesis using 1(3) by (auto simp: storable_def)
    next
      case 2
      note t = appends_ok [OF assms(1,2) 2(2)]
      have "0 \<le> ?pos" by simp
      from recordAssetPosition_ok [OF t(1) assms(2,3) this 2(3), of io]
      consider e where "recordAssetPosition io ?i a ?pos t = (Inl e, t)"
          "\<not> (io_ok io \<and> sql_text u \<and> 33 \<le> length (getData a) \<and> u \<notin> asset_id ` set (rows s ?i))"
        | s' where "recordAssetPosition io ?i a ?pos t = (Inr (), s')" "recorded dir b a u ?pos t s'"
        unfolding t(2) by blast
      then show ?thesis
      proof cases
        case 1
        then have "db_storeAsset io (database dir b) a s = (Inl e, t)"
          using start 2(1) by (simp add: abind_def)
        moreover have "store_outcome dir b a u s (Inl e) t"
          using t by (simp add: store_outcome_def)
        moreover have "\<not> (io_ok io \<and> storable a u \<and> u \<notin> row_ids s ?i)"
          using 1(2) by (simp add: storable_def)
        ultimately show ?thesis by blast
      next
        case 2
        have "store_outcome dir b a u s (Inr ()) s'"
          by (rule recorded_outcome [OF assms(1,2) \<open>appends ?d s t\<close> \<open>record_at (content t ?d) (nat ?pos) = Some a\<close> 2(2)])
        moreover have "db_storeAsset io (database dir b) a s = (Inr (), s')"
          using start \<open>writeNewAsset io ?d a s = (Inr ?pos, t)\<close> 2(1) by (simp add: abind_def)
        ultimately show ?thesis by auto
      qed
    qed
  qed
qed

section \<open>The set of databases\<close>

definition database_set :: "string \<Rightarrow> DatabaseSet" where
  "database_set dir = \<lparr>globalDB = database dir ''globals'', localDB = database dir ''locals''\<rparr>"

lemma bases_in [simp]: "''globals'' \<in> bases" "''locals'' \<in> bases"
  by (simp_all add: bases_def)

lemma VFSDatabase_new_ok:
  assumes "storage_ok s" and "b \<in> bases" and "dir \<in> st_dirs s"
  shows "\<exists>r s'. VFSDatabase_new io b dir s = (r, s') \<and> storage_ok s' \<and> same_files s s'
    \<and> (r = Inr (database dir b) \<or> (\<exists>e. r = Inl e) \<and> \<not> io_ok io)"
proof -
  have "\<not> io_ok io" if "io_sql io p \<noteq> (\<lambda>_. None) \<or> dir \<notin> st_dirs s" for p
    using that assms(3) by (auto simp: io_ok_def)
  with openIndexFile_ok [OF assms(1,2) refl, of io dir] show ?thesis
    using assms(3) by (fastforce simp: VFSDatabase_new_def abind_def database_def)
qed

lemma DatabaseSet_new_ok:
  assumes "storage_ok s" and "dir \<in> st_dirs s"
  shows "\<exists>r s'. DatabaseSet_new io dir s = (r, s') \<and> storage_ok s' \<and> same_files s s'
    \<and> (r = Inr (database_set dir) \<or> (\<exists>e. r = Inl e) \<and> \<not> io_ok io)"
proof -
  obtain r t where t: "VFSDatabase_new io ''globals'' dir s = (r, t)" "storage_ok t" "same_files s t"
    "r = Inr (database dir ''globals'') \<or> (\<exists>e. r = Inl e) \<and> \<not> io_ok io"
    using VFSDatabase_new_ok [OF assms(1) bases_in(1) assms(2), of io] by blast
  have "dir \<in> st_dirs t" using t(3) assms(2) by (auto simp: same_files_def)
  then obtain r' u where u: "VFSDatabase_new io ''locals'' dir t = (r', u)" "storage_ok u" "same_files t u"
    "r' = Inr (database dir ''locals'') \<or> (\<exists>e. r' = Inl e) \<and> \<not> io_ok io"
    using VFSDatabase_new_ok [OF t(2) bases_in(2), of dir io] by blast
  from t(4) u(4) show ?thesis
    using t(1-3) u(1,2) same_files_trans [OF t(3) u(3)]
    by (auto simp: DatabaseSet_new_def abind_def database_set_def)
qed

lemma verifyAndopenSetForUUID_ok:
  assumes "storage_ok s"
  shows "\<exists>r s'. verifyAndopenSetForUUID io uuid s = (r, s') \<and> storage_ok s' \<and> same_files s s'
    \<and> (r = Inr (database_set (getFullPathForUUID uuid)) \<and> getFullPathForUUID uuid \<in> st_dirs s'
       \<or> (\<exists>e. r = Inl e) \<and> \<not> io_ok io)"
proof -
  let ?d = "getFullPathForUUID uuid"
  define t where "t = s\<lparr>st_dirs := insert ?d (st_dirs s)\<rparr>"
  have h: "handle_ok (s\<lparr>st_dirs := insert ?d (st_dirs s)\<rparr>) x = handle_ok s x" for x
    by (simp add: handle_ok_def path_string_def)
  have t: "storage_ok t" "same_files s t" "?d \<in> st_dirs t"
    using assms by (auto simp: t_def storage_ok_def h same_files_def)
  have v: "verifyDatabaseDirectory io uuid s = (Inr (), t) \<or> (\<exists>e. verifyDatabaseDirectory io uuid s = (Inl e, s)) \<and> \<not> io_ok io"
    by (auto simp: verifyDatabaseDirectory_def Let_def t_def insert_absorb io_ok_def split: mkdir_answer.split)
  obtain r u where u: "DatabaseSet_new io ?d t = (r, u)" "storage_ok u" "same_files t u"
    "r = Inr (database_set ?d) \<or> (\<exists>e. r = Inl e) \<and> \<not> io_ok io"
    using DatabaseSet_new_ok [OF t(1,3), of io] by blast
  have "?d \<in> st_dirs u" using u(3) t(3) by (auto simp: same_files_def)
  then show ?thesis
    using v assms u(1,2,4) same_files_trans [OF t(2) u(3)]
    by (elim disjE exE conjE) (auto simp: verifyAndopenSetForUUID_def abind_def split: exn.split)
qed

lemma posix_read_cases:
  "(\<exists>e. posix_read io c f n s = (Inl e, s)) \<or> posix_read io c f n s
     = (Inr (f\<lparr>pf_off := pf_off f + n\<rparr>, take n (drop (pf_off f) (content s (pf_path f)))), s)"
proof (cases "io_read io c")
  case None
  then show ?thesis by (simp add: posix_read_def)
next
  case (Some m)
  show ?thesis
  proof (cases "n \<le> m")
    case True
    then show ?thesis using Some by (simp add: posix_read_def Let_def min_def)
  next
    case False
    then show ?thesis using Some by (simp add: posix_read_def Let_def)
  qed
qed

lemma getAssetAtPosition_sound:
  assumes "record_at (content s p) (nat pos) = Some a"
  shows "(\<exists>e. getAssetAtPosition io p pos s = (Inl e, s)) \<or> getAssetAtPosition io p pos s = (Inr a, s)"
proof (cases "(\<exists>e. posix_open io p Read s = (Inl e, s)) \<or> \<not> io_seek io \<or> pos < 0")
  case True
  have "posix_open io p Read s = (Inr \<lparr>pf_path = p, pf_off = 0\<rparr>, s) \<or> (\<exists>e. posix_open io p Read s = (Inl e, s))"
    by (auto simp: posix_open_def)
  then show ?thesis using True by (auto simp: getAssetAtPosition_def abind_def posix_seek_def)
next
  case False
  let ?c = "content s p" and ?p = "nat pos"
  let ?f = "\<lambda>n. \<lparr>pf_path = p, pf_off = n\<rparr>" and ?d = "take 4 (drop ?p ?c)"
  have a: "unat (of_be32 ?d) \<noteq> 0" "a = Asset (take (unat (of_be32 ?d)) (drop (?p + 4) ?c))"
    using assms by (auto simp: record_at_def Let_def split: if_splits)
  have 1: "posix_open io p Read s = (Inr (?f 0), s)"
    using False by (auto simp: posix_open_def split: if_splits)
  have 2: "posix_seek io (?f 0) pos s = (Inr (?f ?p), s)"
    using False by (simp add: posix_seek_def)
  have 3: "(\<exists>e. posix_read io ReadSize (?f ?p) 4 s = (Inl e, s))
      \<or> posix_read io ReadSize (?f ?p) 4 s = (Inr (?f (?p + 4), ?d), s)"
    using posix_read_cases [of io ReadSize "?f ?p" 4 s] by simp
  define n where "n = unat (of_be32 ?d)"
  have 4: "(\<exists>e. posix_read io ReadData (?f (?p + 4)) n s = (Inl e, s))
      \<or> posix_read io ReadData (?f (?p + 4)) n s = (Inr (?f (?p + 4 + n), getData a), s)"
    using posix_read_cases [of io ReadData "?f (?p + 4)" n s] a by (simp add: n_def)
  from 3 show ?thesis
  proof (elim disjE exE)
    fix e assume "posix_read io ReadSize (?f ?p) 4 s = (Inl e, s)"
    then show ?thesis by (simp add: getAssetAtPosition_def abind_def 1 2)
  next
    assume 3: "posix_read io ReadSize (?f ?p) 4 s = (Inr (?f (?p + 4), ?d), s)"
    from 4 show ?thesis
      by (elim disjE exE) (use a(1) in \<open>simp_all add: getAssetAtPosition_def abind_def 1 2 3 Let_def n_def\<close>)
  qed
qed

lemma db_getAsset_sound:
  assumes "storage_ok s" and "b \<in> bases"
  shows "(\<exists>e. db_getAsset io (database dir b) uuid s = (Inl e, s))
    \<or> db_getAsset io (database dir b) uuid s = (Inr (db_stored s dir b uuid), s)"
proof (cases "sql_text uuid \<and> io_sql io (dir, b @ ''.idx'') SqlFind = None")
  case False
  then obtain e where "findAssetPosition io (dir, b @ ''.idx'') uuid s = (Inl e, s)"
    using findAssetPosition_fails by blast
  then show ?thesis by (simp add: db_getAsset_def abind_def)
next
  case True
  show ?thesis
  proof (cases "lookup_row (rows s (dir, b @ ''.idx'')) uuid")
    case None
    then show ?thesis using True by (simp add: db_getAsset_def abind_def findAssetPosition_ok db_stored_def)
  next
    case (Some q)
    then obtain a where "q \<noteq> INVALID_POSITION"
      "record_at (content s (dir, b @ ''.data'')) (nat q) = Some a"
      using stored_row [OF assms] by blast
    then show ?thesis
      using True Some getAssetAtPosition_sound [of s "(dir, b @ ''.data'')" q a io]
      by (auto simp: db_getAsset_def abind_def findAssetPosition_ok db_stored_def)
  qed
qed

lemma set_getAsset_sound:
  assumes "storage_ok s" and "dir = getFullPathForUUID uuid"
  shows "(\<exists>e. set_getAsset io (database_set dir) uuid s = (Inl e, s))
    \<or> set_getAsset io (database_set dir) uuid s = (Inr (stored s uuid), s)"
  using db_getAsset_sound [OF assms(1) bases_in(1), of io dir uuid]
    db_getAsset_sound [OF assms(1) bases_in(2), of io dir uuid] assms(2)
  by (auto simp: set_getAsset_def database_set_def abind_def stored_def split: option.split)

lemma set_getAsset_ok:
  assumes "storage_ok s" and "dir = getFullPathForUUID uuid" and "io_ok io" and "sql_text uuid"
    and "dir \<in> st_dirs s"
  shows "set_getAsset io (database_set dir) uuid s = (Inr (stored s uuid), s)"
  using db_getAsset_ok [OF assms(1) bases_in(1) assms(3-5)]
    db_getAsset_ok [OF assms(1) bases_in(2) assms(3-5)] assms(2)
  by (auto simp: set_getAsset_def database_set_def abind_def stored_def split: option.split)

lemma disk_getAsset_run:
  assumes "storage_ok s"
  shows "\<exists>r s'. disk_getAsset io uuid s = (r, s') \<and> storage_ok s' \<and> same_files s s'
    \<and> ((\<exists>e. r = Inl e) \<and> \<not> (io_ok io \<and> sql_text uuid) \<or> r = Inr (stored s uuid))"
proof -
  let ?d = "getFullPathForUUID uuid"
  obtain r t where t: "verifyAndopenSetForUUID io uuid s = (r, t)" "storage_ok t" "same_files s t"
    "r = Inr (database_set ?d) \<and> ?d \<in> st_dirs t \<or> (\<exists>e. r = Inl e) \<and> \<not> io_ok io"
    using verifyAndopenSetForUUID_ok [OF assms, of io uuid] by blast
  show ?thesis
    using t set_getAsset_sound [OF t(2) refl, of io uuid] set_getAsset_ok [OF t(2) refl, of io uuid]
      same_files_stored [OF t(3)]
    by (auto simp: disk_getAsset_def abind_def)
qed

lemma disk_storeAsset_run:
  assumes "storage_ok s" and "Asset_getUUID a = Inr u"
  shows "\<exists>r s'. disk_storeAsset io a s = (r, s') \<and> storage_ok s'
    \<and> (\<forall>p. row_keys s' p \<subseteq> row_keys s p
          \<union> (if (\<exists>b \<in> bases. p = (getFullPathForUUID u, b @ ''.idx'')) \<and> \<not> isl r then {(u, 0)} else {}))
    \<and> (\<forall>p. \<not> isl r \<and> st_data s' p = Some [] \<longrightarrow> st_data s p = Some [])
    \<and> (\<forall>v. v \<noteq> u \<or> isl r \<longrightarrow> stored s' v = stored s v)
    \<and> ((\<forall>b \<in> bases. st_data s (getFullPathForUUID u, b @ ''.data'') \<noteq> Some [])
         \<and> \<not> isl r \<and> stored s u = None \<longrightarrow> stored s' u = Some a)
    \<and> (isLocal a = Inr False \<and> st_data s (getFullPathForUUID u, ''globals.data'') = Some [] \<longrightarrow> stored s' = stored s)
    \<and> (isLocal a = Inr True \<longrightarrow> (\<forall>dir v. db_stored s' dir ''globals'' v = db_stored s dir ''globals'' v))
    \<and> (io_ok io \<and> storable a u \<and> (\<forall>b \<in> bases. u \<notin> asset_id ` set (rows s (getFullPathForUUID u, b @ ''.idx'')))
         \<longrightarrow> \<not> isl r)"
proof -
  let ?d = "getFullPathForUUID u"
  obtain r t where t: "verifyAndopenSetForUUID io u s = (r, t)" "storage_ok t" "same_files s t"
    "r = Inr (database_set ?d) \<and> ?d \<in> st_dirs t \<or> (\<exists>e. r = Inl e) \<and> \<not> io_ok io"
    using verifyAndopenSetForUUID_ok [OF assms(1), of io u] by blast
  have eq: "stored t = stored s" "rows t = rows s" "st_data t = st_data s"
    using same_files_stored [OF t(3)] t(3) by (auto simp: same_files_def)
  show ?thesis
  proof (cases "\<exists>loc. r = Inr (database_set ?d) \<and> isLocal a = Inr loc")
    case False
    have "\<not> 34 \<le> length (getData a)" if "isLocal a = Inl e" for e
      using that by (auto simp: isLocal_def at_def split: if_splits)
    then show ?thesis
      using False t assms(2) eq same_files_db [OF t(3)]
      by (cases r; cases "isLocal a")
        (auto simp: disk_storeAsset_def abind_def set_storeAsset_def storable_def)
  next
    case True
    then obtain loc where loc: "r = Inr (database_set ?d)" "isLocal a = Inr loc" by blast
    let ?b = "if loc then ''locals'' else ''globals''"
    have b: "?b \<in> bases" by simp
    obtain r' s' where s': "db_storeAsset io (database ?d ?b) a t = (r', s')"
      "store_outcome ?d ?b a u t r' s'"
      "io_ok io \<and> storable a u \<and> ?d \<in> st_dirs t \<and> u \<notin> asset_id ` set (rows t (?d, ?b @ ''.idx''))
       \<longrightarrow> \<not> isl r'"
      using db_storeAsset_ok [OF t(2) b assms(2), of io ?d] by blast
    have run: "disk_storeAsset io a s = (r', s')"
      using t(1) loc assms(2) s'(1)
      by (cases loc) (simp_all add: disk_storeAsset_def set_storeAsset_def abind_def database_set_def)
    have st: "db_stored s' dir' b' v = (if dir' = ?d \<and> b' = ?b \<and> v = u \<and> \<not> isl r'
        \<and> st_data s (?d, ?b @ ''.data'') \<noteq> Some [] then Some a else db_stored t dir' b' v)"
      if "b' \<in> bases" for dir' b' v
      using store_outcomeD(2) [OF s'(2) that, of dir' v] unfolding eq(3) .
    define i where "i = (?d, ?b @ ''.idx'')"
    have "\<exists>b \<in> bases. i = (?d, b @ ''.idx'')" using b unfolding i_def by blast
    then have ids: "row_keys s' p \<subseteq> row_keys s p
        \<union> (if (\<exists>b \<in> bases. p = (?d, b @ ''.idx'')) \<and> \<not> isl r' then {(u, 0)} else {})" for p
      using store_outcomeD(3) [OF s'(2), of p] unfolding eq(2) i_def [symmetric]
      by (cases "p = i \<and> \<not> isl r'") auto
    have empty: "\<not> isl r' \<and> st_data s' p = Some [] \<longrightarrow> st_data s p = Some []" for p
      using store_outcomeD(4) [OF s'(2), of p] unfolding eq(3) .
    have "stored s' v = stored s v" if "v \<noteq> u \<or> isl r'" for v
      using that unfolding eq(1) [symmetric] by (auto simp: stored_def st cong: option.case_cong)
    moreover have "stored s' u = Some a" if "\<forall>b \<in> bases. st_data s (?d, b @ ''.data'') \<noteq> Some []"
      "\<not> isl r'" "stored s u = None"
      using that(2,3) bspec [OF that(1) b] unfolding eq(1) [symmetric]
      by (cases loc) (auto simp: stored_def st cong: option.case_cong split: option.splits)
    moreover have "stored s' = stored s" if "isLocal a = Inr False" "st_data s (?d, ''globals.data'') = Some []"
      using that loc(2) unfolding eq(1) [symmetric]
      by (intro ext) (auto simp: stored_def st cong: option.case_cong)
    moreover have "db_stored s' dir ''globals'' v = db_stored s dir ''globals'' v" if "isLocal a = Inr True" for dir v
      using that loc(2) same_files_db [OF t(3)] by (auto simp: st)
    moreover have "io_ok io \<and> storable a u \<and> (\<forall>b \<in> bases. u \<notin> row_ids s (?d, b @ ''.idx'')) \<longrightarrow> \<not> isl r'"
    proof (intro impI)
      assume h: "io_ok io \<and> storable a u \<and> (\<forall>b \<in> bases. u \<notin> row_ids s (?d, b @ ''.idx''))"
      have "u \<notin> row_ids s (?d, ?b @ ''.idx'')" using h b by blast
      moreover have "?d \<in> st_dirs t" using t(4) loc(1) by auto
      ultimately show "\<not> isl r'" using s'(3) h unfolding eq(2) by blast
    qed
    ultimately show ?thesis
      by (intro exI [of _ r'] exI [of _ s'] conjI allI run store_outcomeD(1) [OF s'(2)] ids empty) blast+
  qed
qed

section \<open>Deleting the local assets of a directory\<close>

lemma forceCloseIndexFile_ok:
  assumes "storage_ok s"
  shows "\<exists>s'. forceCloseIndexFile p s = (Inr (), s') \<and> storage_ok s' \<and> same_files s s' \<and> st_idx s' = st_idx s
    \<and> (\<forall>x \<in> set (bindings (st_open s')). fst x \<noteq> path_string s p)"
proof -
  let ?k = "path_string s p"
  obtain c where c: "fetch (st_open s) ?k True = Inr (c, map_of (bindings (st_open s)) ?k)"
    "lru_inv (\<lambda>_. 1) (\<lambda>_. True) c" "bindings c = promote ?k (bindings (st_open s))"
    using entry_count.fetch_sim(1) [OF storage_okD(1) [OF assms], of ?k True] by auto
  have h: "x \<in> set (bindings c) \<Longrightarrow> handle_ok s x" for x
    using storage_okD(3) [OF assms, of x] set_promote [of ?k "bindings (st_open s)"] c(3) by auto
  show ?thesis
  proof (cases "map_of (bindings (st_open s)) ?k")
    case None
    then have "bindings c = bindings (st_open s)" using c(3) by (simp add: promote_def)
    then have "\<forall>x \<in> set (bindings c). fst x \<noteq> ?k"
      using None by (force simp: map_of_eq_None_iff)
    then show ?thesis
      using c(1) None set_open_ok [OF assms c(2) h] by (simp add: forceCloseIndexFile_def Let_def)
  next
    case (Some d)
    then have "?k \<in> fst ` set (bindings c)" using c(3) by (auto simp: promote_def)
    then obtain n where n: "lru_index c ?k = Some n"
      using index_None [OF c(2)] by (metis not_None_eq)
    obtain c' where c': "remove_at EntryCountCalculator c ?k n = Inr c'" "lru_inv (\<lambda>_. 1) (\<lambda>_. True) c'"
      "bindings c' = without ?k (bindings c)"
      using entry_count.remove_sim [OF c(2) n] by blast
    have h': "x \<in> set (bindings c') \<Longrightarrow> handle_ok s x" for x
      using h [of x] c'(3) by (auto simp: without_def)
    have "\<forall>x \<in> set (bindings c'). fst x \<noteq> ?k" using c'(3) by (auto simp: without_def)
    then show ?thesis
      using c(1) Some n c'(1) set_open_ok [OF assms c'(2) h']
      by (simp add: forceCloseIndexFile_def lru_remove_def Let_def)
  qed
qed

lemma remove_index_ok:
  assumes "storage_ok s" and "\<forall>x \<in> set (bindings (st_open s)). fst x \<noteq> path_string s p"
  shows "storage_ok (s\<lparr>st_idx := (st_idx s)(p := None)\<rparr>)" (is "storage_ok ?s")
proof -
  have r: "rows ?s q = (if q = p then [] else rows s q)" for q by (simp add: rows_def)
  have "handle_ok ?s x" if x: "x \<in> set (bindings (st_open s))" for x
    using storage_okD(3) [OF assms(1) x] bspec [OF assms(2) x]
    by (auto simp: handle_ok_def path_string_def)
  moreover have "db_tables db \<or> db_rows db = []" if "st_idx ?s q = Some db" for q db
    using that storage_okD(2) [OF assms(1), of q db] by (auto split: if_splits)
  moreover have "distinct (map asset_id (rows ?s (dir, b @ ''.idx'')))
      \<and> list_all (row_ok (content ?s (dir, b @ ''.data''))) (rows ?s (dir, b @ ''.idx''))"
    if b: "b \<in> bases" for dir b
    using storage_okD(4,5) [OF assms(1) b, of dir] by (simp add: r)
  ultimately show ?thesis
    using storage_okD(1) [OF assms(1)] unfolding storage_ok_def by simp
qed

lemma remove_data_ok:
  assumes "storage_ok s" and "rows s (dir, b @ ''.idx'') = []" and p: "p = (dir, b @ ''.data'')"
  shows "storage_ok (s\<lparr>st_data := (st_data s)(p := None)\<rparr>)" (is "storage_ok ?s")
    and "db_stored (s\<lparr>st_data := (st_data s)(p := None)\<rparr>) = db_stored s"
proof -
  have c: "content ?s (dir', b' @ ''.data'') = (if dir' = dir \<and> b' = b then [] else content s (dir', b' @ ''.data''))"
    for dir' b' by (simp add: content_def p)
  have h: "handle_ok ?s x = handle_ok s x" for x by (simp add: handle_ok_def path_string_def)
  have "distinct (map asset_id (rows s (dir', b' @ ''.idx'')))
      \<and> list_all (row_ok (content ?s (dir', b' @ ''.data''))) (rows s (dir', b' @ ''.idx''))"
    if b': "b' \<in> bases" for dir' b'
    using storage_okD(4,5) [OF assms(1) b', of dir'] assms(2) by (auto simp: c)
  then show "storage_ok ?s"
    using assms(1) unfolding storage_ok_def by (simp add: h)
  show "db_stored ?s = db_stored s"
    using assms(2)
    by (intro ext) (auto simp: db_stored_def c lookup_row_def cong: option.case_cong split: option.split)
qed

lemma performLocalsPhysicalDeletion_run:
  assumes "storage_ok s"
  shows "\<exists>r s'. performLocalsPhysicalDeletion io head s = (r, s') \<and> storage_ok s'
    \<and> (isl r \<longleftrightarrow> \<not> (io_remove io (head, ''locals.idx'') \<and> io_remove io (head, ''locals.data'')))
    \<and> (\<forall>v. stored s' v = (if io_remove io (head, ''locals.idx'') \<and> getFullPathForUUID v = head
             then db_stored s head ''globals'' v else stored s v))"
proof -
  let ?i = "(head, ''locals.idx'')" and ?d = "(head, ''locals.data'')"
  obtain t where t: "forceCloseIndexFile ?i s = (Inr (), t)" "storage_ok t" "same_files s t"
    "\<forall>x \<in> set (bindings (st_open t)). fst x \<noteq> path_string s ?i"
    using forceCloseIndexFile_ok [OF assms, of ?i] by blast
  note eq = same_files_stored [OF t(3)] same_files_db [OF t(3)]
  show ?thesis
  proof (cases "io_remove io ?i")
    case False
    then show ?thesis
      using t(1,2) eq by (simp add: performLocalsPhysicalDeletion_def abind_def remove_file_def Let_def)
  next
    case True
    let ?u = "t\<lparr>st_idx := (st_idx t)(?i := None)\<rparr>" 
    have "path_string t ?i = path_string s ?i" using t(3) by (simp add: path_string_def same_files_def)
    then have u: "storage_ok ?u" using remove_index_ok [OF t(2), of ?i] t(4) by simp
    have r: "rows ?u q = (if q = ?i then [] else rows t q)" for q by (simp add: rows_def)
    let ?v = "?u\<lparr>st_data := (st_data ?u)(?d := None)\<rparr>"
    have v: "storage_ok ?v" "db_stored ?v = db_stored ?u"
      using remove_data_ok [OF u, of head "''locals''"] r by simp_all
    have db: "db_stored ?u dir b w = (if dir = head \<and> b = ''locals'' then None else db_stored t dir b w)"
      if "b \<in> bases" for dir b w
      using that lookup_row_absent [of w "[]"] by (auto simp: db_stored_def r bases_def cong: option.case_cong)
    have st: "stored ?u w = (if getFullPathForUUID w = head then db_stored s head ''globals'' w else stored s w)" for w
      unfolding eq [symmetric] by (auto simp: stored_def db cong: option.case_cong split: option.split)
    have "stored ?v = stored ?u" using v(2) by (simp add: stored_def [abs_def] cong: option.case_cong)
    then show ?thesis
      using t(1) True u v(1) st
      by (cases "io_remove io ?d")
        (simp_all add: performLocalsPhysicalDeletion_def abind_def remove_file_def Let_def del: fun_upd_apply)
  qed
qed

section \<open>The promises of the disk layer\<close>

text \<open>A directory with nothing in it.\<close>

definition Storage_new :: "string \<Rightarrow> Storage" where
  "Storage_new root = \<lparr>st_root = root, st_dirs = {}, st_data = (\<lambda>_. None), st_idx = (\<lambda>_. None),
     st_open = LRUCache_new MAX_OPEN_FILES\<rparr>"

lemma storage_ok_new: "storage_ok (Storage_new root)"
  by (simp add: storage_ok_def Storage_new_def lru_inv_new rows_def)

lemma rows_new [simp]: "rows (Storage_new root) p = []" "st_data (Storage_new root) p = None"
  by (simp_all add: Storage_new_def rows_def)

lemma stored_new [simp]: "stored (Storage_new root) u = None"
  by (simp add: stored_def db_stored_def lookup_row_def)

definition io_plain :: Io where
  "io_plain = \<lparr>io_open = True, io_stat = True, io_seek = True, io_mkdir = Created, io_remove = (\<lambda>_. True),
     io_read = (\<lambda>_. Some (2 ^ 32)), io_write = (\<lambda>_. Some (2 ^ 32)), io_sql = (\<lambda>_ _. None)\<rparr>"

lemma io_ok_plain: "io_ok io_plain"
  by (simp add: io_ok_def io_plain_def)

definition sample_asset :: Asset where
  "sample_asset = Asset (bytes_of_string (replicate 32 CHR ''a'') @ [0, 0])"

lemma sample_storable: "storable sample_asset (replicate 32 CHR ''a'')" "isLocal sample_asset = Inr False"
  by (simp_all add: storable_def sample_asset_def Asset_getUUID_def read_string_def sql_text_def
      isLocal_def at_def list_all_iff nth_append)

definition sample_local :: Asset where
  "sample_local = Asset (bytes_of_string (replicate 32 CHR ''a'') @ [0, 1])"

lemma sample_local_storable: "storable sample_local (replicate 32 CHR ''a'')" "isLocal sample_local = Inr True"
  by (simp_all add: storable_def sample_local_def Asset_getUUID_def read_string_def sql_text_def
      isLocal_def at_def list_all_iff nth_append)

lemma sample_kept:
  assumes "storable a (replicate 32 CHR ''a'')"
  shows "\<exists>s. disk_storeAsset io_plain a (Storage_new ''data'') = (Inr (), s) \<and> storage_ok s
    \<and> stored s (replicate 32 CHR ''a'') = Some a
    \<and> (isLocal a = Inr True \<longrightarrow> db_stored s ''aaa'' ''globals'' (replicate 32 CHR ''a'') = None)"
proof -
  let ?u = "replicate 32 CHR ''a''" and ?s = "Storage_new ''data''"
  have u: "Asset_getUUID a = Inr ?u" using assms by (simp add: storable_def)
  obtain r s where s: "disk_storeAsset io_plain a ?s = (r, s)" "storage_ok s"
    "(\<forall>b \<in> bases. st_data ?s (getFullPathForUUID ?u, b @ ''.data'') \<noteq> Some []) \<and> \<not> isl r \<and> stored ?s ?u = None \<longrightarrow> stored s ?u = Some a"
    "isLocal a = Inr True \<longrightarrow> (\<forall>dir v. db_stored s dir ''globals'' v = db_stored ?s dir ''globals'' v)"
    "io_ok io_plain \<and> storable a ?u \<and> (\<forall>b \<in> bases. ?u \<notin> asset_id ` set (rows ?s (getFullPathForUUID ?u, b @ ''.idx''))) \<longrightarrow> \<not> isl r"
    using disk_storeAsset_run [OF storage_ok_new u, of io_plain "''data''"] by blast
  have "\<not> isl r" using s(5) io_ok_plain assms by simp
  then have "r = Inr ()" "stored s ?u = Some a" using s(3) by (cases r; simp)+
  moreover have "db_stored ?s d b v = None" for d b v by (simp add: db_stored_def lookup_row_def)
  ultimately show ?thesis using s(1,2,4) by auto
qed

text \<open>
  C20: With no faults, storing an asset whose id is not yet known in a directory where no data file
  is empty succeeds, and every later read returns what the map extended by that asset returns.
\<close>

theorem disk_store_get:
  assumes "storage_ok s" and "io_ok io" and "storable a u"
    and "\<forall>b \<in> bases. u \<notin> asset_id ` set (rows s (getFullPathForUUID u, b @ ''.idx''))"
    and "\<forall>b \<in> bases. st_data s (getFullPathForUUID u, b @ ''.data'') \<noteq> Some []"
  shows "\<exists>s'. disk_storeAsset io a s = (Inr (), s') \<and> storage_ok s'
    \<and> (\<forall>v. sql_text v \<longrightarrow> (\<exists>s''. disk_getAsset io v s' = (Inr (((stored s)(u \<mapsto> a)) v), s'')))"
proof -
  have u: "Asset_getUUID a = Inr u" using assms(3) by (simp add: storable_def)
  have "stored s u = None"
    using assms(4) by (simp add: stored_def db_stored_def lookup_row_absent bases_def)
  moreover obtain r s' where s': "disk_storeAsset io a s = (r, s')" "storage_ok s'"
    "\<forall>v. v \<noteq> u \<or> isl r \<longrightarrow> stored s' v = stored s v"
    "(\<forall>b \<in> bases. st_data s (getFullPathForUUID u, b @ ''.data'') \<noteq> Some [])
       \<and> \<not> isl r \<and> stored s u = None \<longrightarrow> stored s' u = Some a" "\<not> isl r"
    using disk_storeAsset_run [OF assms(1) u, of io] assms(2-4) by blast
  ultimately have "stored s' = (stored s)(u \<mapsto> a)" using assms(5) by auto
  moreover have "\<exists>s''. disk_getAsset io v s' = (Inr (stored s' v), s'')" if "sql_text v" for v
    using disk_getAsset_run [OF s'(2), of io v] assms(2) that by auto
  moreover have "r = Inr ()" using s'(5) by (cases r) auto
  ultimately show ?thesis using s'(1,2) by auto
qed

theorem disk_store_get_witness:
  "\<exists>s'. disk_storeAsset io_plain sample_asset (Storage_new ''data'') = (Inr (), s')
    \<and> (\<exists>s''. disk_getAsset io_plain (replicate 32 CHR ''a'') s' = (Inr (Some sample_asset), s''))"
proof -
  have "sql_text (replicate 32 CHR ''a'')" by (simp add: sql_text_def list_all_iff)
  then show ?thesis
    using disk_store_get [OF storage_ok_new io_ok_plain sample_storable(1), of "''data''"] by fastforce
qed

text \<open>
  C21: Whatever the operating system and SQLite answer, a store keeps the disk well formed, changes
  no other asset, and when it reports an error changes no asset at all.
\<close>

theorem disk_store_faults:
  assumes "storage_ok s" and "Asset_getUUID a = Inr u" and "disk_storeAsset io a s = (r, s')"
  shows "storage_ok s' \<and> (\<forall>v. v \<noteq> u \<or> isl r \<longrightarrow> stored s' v = stored s v)"
  using disk_storeAsset_run [OF assms(1,2), of io] assms(3) by auto

theorem disk_store_faults_witness:
  "stored (snd (disk_storeAsset (io_plain\<lparr>io_write := (\<lambda>_. Some 5)\<rparr>) sample_asset (Storage_new ''data''))) ''b'' = None"
proof -
  obtain r s' where run: "disk_storeAsset (io_plain\<lparr>io_write := (\<lambda>_. Some 5)\<rparr>) sample_asset (Storage_new ''data'')
      = (r, s')" by (metis surj_pair)
  have u: "Asset_getUUID sample_asset = Inr (replicate 32 CHR ''a'')"
    using sample_storable(1) by (simp add: storable_def)
  have "''b'' \<noteq> replicate 32 CHR ''a''" by (metis length_replicate length_Cons list.size(3) numeral_eq_one_iff One_nat_def semiring_norm(85))
  then have "stored s' ''b'' = stored (Storage_new ''data'') ''b''"
    using disk_store_faults [OF storage_ok_new u run] by blast
  then show ?thesis by (simp add: run)
qed

text \<open>
  C22: Whatever the operating system and SQLite answer, a read that reports no error returns exactly
  the asset stored under the id, and changes no asset.
\<close>

theorem disk_read_sound:
  assumes "storage_ok s" and "disk_getAsset io u s = (Inr x, s')"
  shows "x = stored s u \<and> storage_ok s' \<and> stored s' = stored s"
  using disk_getAsset_run [OF assms(1), of io u] assms(2) by (auto dest: same_files_stored)

theorem disk_read_sound_witness:
  "\<exists>s s'. disk_storeAsset io_plain sample_asset (Storage_new ''data'') = (Inr (), s)
    \<and> disk_getAsset io_plain (replicate 32 CHR ''a'') s = (Inr (Some sample_asset), s') \<and> stored s' = stored s"
proof -
  obtain s where s: "disk_storeAsset io_plain sample_asset (Storage_new ''data'') = (Inr (), s)" "storage_ok s"
    "stored s (replicate 32 CHR ''a'') = Some sample_asset"
    using sample_kept [OF sample_storable(1)] by blast
  then obtain s' where "disk_getAsset io_plain (replicate 32 CHR ''a'') s = (Inr (Some sample_asset), s')"
    using disk_getAsset_run [OF s(2), of io_plain "replicate 32 CHR ''a''"] io_ok_plain sample_storable(1)
    by (auto simp: storable_def)
  with disk_read_sound [OF s(2) this] s(1) show ?thesis by blast
qed

text \<open>
  C23: Deleting the local storage of a directory removes exactly the local assets of that directory
  if its index file can be removed, whether or not the data file can be; if the index file cannot be
  removed no asset is.  It reports an error exactly when one of the files could not be removed, and
  keeps the disk well formed.
\<close>

theorem locals_deletion:
  assumes "storage_ok s" and "performLocalsPhysicalDeletion io head s = (r, s')"
  shows "storage_ok s'
    \<and> (isl r \<longleftrightarrow> \<not> (io_remove io (head, ''locals.idx'') \<and> io_remove io (head, ''locals.data'')))
    \<and> stored s' = (\<lambda>v. if io_remove io (head, ''locals.idx'') \<and> getFullPathForUUID v = head
             then db_stored s head ''globals'' v else stored s v)"
  using performLocalsPhysicalDeletion_run [OF assms(1), of io head] assms(2) by auto

theorem locals_deletion_witness:
  "\<exists>s s'. disk_storeAsset io_plain sample_local (Storage_new ''data'') = (Inr (), s)
    \<and> stored s (replicate 32 CHR ''a'') = Some sample_local
    \<and> performLocalsPhysicalDeletion (io_plain\<lparr>io_remove := (\<lambda>p. snd p = ''locals.idx'')\<rparr>) ''aaa'' s = (Inl (RuntimeError ''boost::filesystem::remove''), s')
    \<and> stored s' (replicate 32 CHR ''a'') = None"
proof -
  let ?io = "io_plain\<lparr>io_remove := (\<lambda>p. snd p = ''locals.idx'')\<rparr>" and ?u = "replicate 32 CHR ''a''"
  obtain s where s: "disk_storeAsset io_plain sample_local (Storage_new ''data'') = (Inr (), s)" "storage_ok s"
    "stored s ?u = Some sample_local" "isLocal sample_local = Inr True \<longrightarrow> db_stored s ''aaa'' ''globals'' ?u = None"
    using sample_kept [OF sample_local_storable(1)] by blast
  obtain r s' where r: "performLocalsPhysicalDeletion ?io ''aaa'' s = (r, s')" by (metis surj_pair)
  have "getFullPathForUUID ?u = ''aaa''" by (simp add: getFullPathForUUID_def UUID_PATH_CHARS_def numeral_3_eq_3)
  then have st: "stored s' ?u = None" "isl r" using locals_deletion [OF s(2) r] s(4) sample_local_storable(2) by simp_all
  moreover have "r = Inl (RuntimeError ''boost::filesystem::remove'')"
    using r st(2) forceCloseIndexFile_ok [OF s(2), of "(''aaa'', ''locals.idx'')"]
    by (auto simp: performLocalsPhysicalDeletion_def remove_file_def abind_def Let_def)
  ultimately show ?thesis using s r by blast
qed

lemma open_set_same_sql:
  assumes "io_mkdir io' = io_mkdir io" and "io_sql io' = io_sql io"
  shows "verifyAndopenSetForUUID io' = verifyAndopenSetForUUID io"
proof -
  have 1: "sql_check io' = sql_check io" using assms(2) by (simp add: fun_eq_iff sql_check_def)
  have 2: "SQLiteIndexFile_new io' = SQLiteIndexFile_new io"
    unfolding SQLiteIndexFile_new_def [abs_def] initializeDatabase_def [abs_def] transaction_def [abs_def] 1 assms(2) by (rule refl)
  have 3: "openIndexFile io' = openIndexFile io" unfolding openIndexFile_def [abs_def] 2 by (rule refl)
  have 4: "VFSDatabase_new io' = VFSDatabase_new io" unfolding VFSDatabase_new_def [abs_def] 3 by (rule refl)
  have 5: "DatabaseSet_new io' = DatabaseSet_new io" unfolding DatabaseSet_new_def [abs_def] 4 by (rule refl)
  show ?thesis
    unfolding verifyAndopenSetForUUID_def [abs_def] verifyDatabaseDirectory_def [abs_def] 5 assms(1) by (rule refl)
qed

text \<open>
  C24: If writing the magic number of a new data file fails, the file stays behind empty; the next
  store of a global asset then reports success, its position is the invalid one, and the asset
  cannot be read.
\<close>

theorem empty_file_loses_asset:
  assumes "storage_ok s" and "io_ok io" and "storable a u" and "isLocal a = Inr False"
    and "\<forall>b \<in> bases. u \<notin> asset_id ` set (rows s (getFullPathForUUID u, b @ ''.idx''))"
    and "st_data s (getFullPathForUUID u, ''globals.data'') = None"
  shows "\<exists>e s1 s2 s3. disk_storeAsset (io\<lparr>io_write := (io_write io)(WriteMagic := None)\<rparr>) a s = (Inl e, s1)
    \<and> disk_storeAsset io a s1 = (Inr (), s2) \<and> disk_getAsset io u s2 = (Inr None, s3)"
proof -
  let ?io = "io\<lparr>io_write := (io_write io)(WriteMagic := None)\<rparr>" and ?d = "getFullPathForUUID u"
  have u: "Asset_getUUID a = Inr u" and q: "sql_text u" using assms(3) by (simp_all add: storable_def)
  have none: "lookup_row (rows s (?d, b @ ''.idx'')) u = None" if "b \<in> bases" for b
    using assms(5) that by (simp add: lookup_row_absent)
  obtain t where t: "verifyAndopenSetForUUID ?io u s = (Inr (database_set ?d), t)" "storage_ok t"
    "same_files s t" "?d \<in> st_dirs t"
    using verifyAndopenSetForUUID_ok [OF assms(1), of io u] open_set_same_sql [of ?io io] assms(2) by auto
  have eq: "rows t = rows s" "st_data t = st_data s" using t(3) by (auto simp: same_files_def)
  let ?p = "(?d, ''globals.data'')"
  let ?s1 = "t\<lparr>st_data := (st_data t)(?p \<mapsto> [])\<rparr>"
  have "findAssetPosition ?io (?d, ''globals.idx'') u t = (Inr INVALID_POSITION, t)"
    using findAssetPosition_ok [OF q, of ?io "(?d, ''globals.idx'')" t] none [of "''globals''"] assms(2) eq
    by (simp add: io_ok_def)
  moreover have "posix_open ?io ?p Write t = (Inr \<lparr>pf_path = ?p, pf_off = 0\<rparr>, ?s1)"
    using assms(2,6) t(4) eq by (simp add: posix_open_def io_ok_def)
  ultimately obtain e where 1: "disk_storeAsset ?io a s = (Inl e, ?s1)"
    using u assms(4,6) t(1) eq
    by (simp add: disk_storeAsset_def set_storeAsset_def database_set_def db_storeAsset_def
        db_assetExists_def writeNewAsset_def open_for_append_def posix_write_def abind_def)
  have ok: "storage_ok ?s1" "stored ?s1 u = stored s u" "rows ?s1 = rows s"
    using disk_storeAsset_run [OF assms(1) u, of ?io] 1 eq by auto
  have "stored s u = None"
    using none [of "''globals''"] none [of "''locals''"] by (simp add: stored_def db_stored_def)
  moreover have "st_data ?s1 ?p = Some []" by simp
  ultimately obtain r s2 where 2: "disk_storeAsset io a ?s1 = (r, s2)" "storage_ok s2" "stored s2 u = None" "\<not> isl r"
    using disk_storeAsset_run [OF ok(1) u, of io] assms(2-5) ok(2,3) by metis
  moreover from 2(4) have "r = Inr ()" by (cases r) auto
  moreover obtain s3 where "disk_getAsset io u s2 = (Inr None, s3)"
    using disk_getAsset_run [OF 2(2), of io u] assms(2) q 2(3) by auto
  ultimately show ?thesis using 1 by blast
qed

theorem empty_file_loses_asset_witness:
  "\<exists>e s1 s2 s3. disk_storeAsset (io_plain\<lparr>io_write := (io_write io_plain)(WriteMagic := None)\<rparr>)
      sample_asset (Storage_new ''data'') = (Inl e, s1)
    \<and> disk_storeAsset io_plain sample_asset s1 = (Inr (), s2)
    \<and> disk_getAsset io_plain (replicate 32 CHR ''a'') s2 = (Inr None, s3)"
  by (rule empty_file_loses_asset [OF storage_ok_new io_ok_plain sample_storable]) simp_all

lemma store_open_fails:
  assumes "storage_ok s" and "io_ok io" and "storable a u"
    and "\<forall>b \<in> bases. u \<notin> row_ids s (getFullPathForUUID u, b @ ''.idx'')"
  shows "\<exists>m d. disk_storeAsset (io\<lparr>io_open := False\<rparr>) a s = (Inl (AssetStorageError m True), d)"
proof -
  let ?io = "io\<lparr>io_open := False\<rparr>" and ?d = "getFullPathForUUID u"
  have u: "Asset_getUUID a = Inr u" and q: "sql_text u" and l: "34 \<le> length (getData a)"
    using assms(3) by (simp_all add: storable_def)
  obtain t where t: "verifyAndopenSetForUUID ?io u s = (Inr (database_set ?d), t)" "same_files s t"
    using verifyAndopenSetForUUID_ok [OF assms(1), of io u] open_set_same_sql [of ?io io] assms(2) by auto
  have f: "findAssetPosition ?io (?d, b @ ''.idx'') u t = (Inr INVALID_POSITION, t)" if "b \<in> bases" for b
    using findAssetPosition_ok [OF q, of ?io "(?d, b @ ''.idx'')" t] assms(2,4) t(2) that
    by (simp add: io_ok_def lookup_row_absent same_files_def)
  have o: "posix_open ?io p Write t = (Inl (posix_error ''Unable to open data file for writing'' ''''), t)" for p
    by (simp add: posix_open_def)
  have "isLocal a = Inr (getData a ! 33 = 1)" using l by (simp add: isLocal_def at_def)
  then show ?thesis
    using u t(1) f [of "''globals''"] f [of "''locals''"]
    by (simp add: disk_storeAsset_def set_storeAsset_def database_set_def db_storeAsset_def
        db_assetExists_def writeNewAsset_def open_for_append_def abind_def o posix_error_def)
qed

section \<open>The contract of an asset store\<close>

text \<open>
  What the backend relies on: under an environment without faults, reads and new writes are those
  of a map.
\<close>

locale asset_store =
  fixes get :: "'i \<Rightarrow> string \<Rightarrow> ('s, Asset option) action"
    and put :: "'i \<Rightarrow> Asset \<Rightarrow> ('s, unit) action"
    and good :: "'i \<Rightarrow> bool"
    and inv :: "'s \<Rightarrow> bool"
    and contents :: "'s \<Rightarrow> string \<Rightarrow> Asset option"
    and key :: "string \<Rightarrow> bool"
    and entry :: "Asset \<Rightarrow> string \<Rightarrow> bool"
  assumes get_law: "good i \<Longrightarrow> inv s \<Longrightarrow> key u \<Longrightarrow>
      \<exists>s'. get i u s = (Inr (contents s u), s') \<and> inv s' \<and> contents s' = contents s"
    and put_law: "good i \<Longrightarrow> inv s \<Longrightarrow> entry a u \<Longrightarrow> contents s u = None \<Longrightarrow>
      \<exists>s'. put i a s = (Inr (), s') \<and> inv s' \<and> contents s' = (contents s)(u \<mapsto> a)"
    and entry_key: "entry a u \<Longrightarrow> key u"
begin

lemma put_then_get:
  assumes "good i" and "inv s" and "entry a u" and "contents s u = None"
  shows "\<exists>s' s''. put i a s = (Inr (), s') \<and> get i u s' = (Inr (Some a), s'') \<and> contents s'' = (contents s)(u \<mapsto> a)"
  using put_law [OF assms] get_law [OF assms(1) _ entry_key [OF assms(3)]] by fastforce

lemma put_keeps:
  assumes "good i" and "inv s" and "entry a u" and "contents s u = None" and "contents s v = Some c" and "key v"
  shows "\<exists>s' s''. put i a s = (Inr (), s') \<and> get i v s' = (Inr (Some c), s'')"
proof -
  obtain s' where s': "put i a s = (Inr (), s')" "inv s'" "contents s' = (contents s)(u \<mapsto> a)"
    using put_law [OF assms(1-4)] by blast
  moreover have "contents s' v = Some c" using s'(3) assms(4,5) by auto
  ultimately show ?thesis using get_law [OF assms(1) s'(2) assms(6)] by fastforce
qed

end

text \<open>
  No row without a record, and no data file without its magic number; every row is a valid id in
  an index of its own directory, and none is marked as deleted.
\<close>

definition key_ok :: "Storage \<Rightarrow> path \<Rightarrow> string \<times> int \<Rightarrow> bool" where
  "key_ok s p x \<longleftrightarrow> snd x = 0 \<and> IsValidUUID (fst x) \<and> stored s (fst x) \<noteq> None
     \<and> (\<exists>b \<in> bases. p = (getFullPathForUUID (fst x), b @ ''.idx''))"

definition disk_ok :: "Storage \<Rightarrow> bool" where
  "disk_ok s \<longleftrightarrow> storage_ok s \<and> (\<forall>p. st_data s p \<noteq> Some []) \<and> (\<forall>p. \<forall>x \<in> row_keys s p. key_ok s p x)"

lemma disk_okD:
  assumes "disk_ok s"
  shows "storage_ok s" and "st_data s p \<noteq> Some []" and "x \<in> row_keys s p \<Longrightarrow> key_ok s p x"
    and "v \<in> row_ids s p \<Longrightarrow> stored s v \<noteq> None"
proof -
  show "storage_ok s" "st_data s p \<noteq> Some []" and k: "x \<in> row_keys s p \<Longrightarrow> key_ok s p x" for x
    using assms unfolding disk_ok_def by blast+
  show "v \<in> row_ids s p \<Longrightarrow> stored s v \<noteq> None"
    using k [of "(v, k)" for k] by (force simp: key_ok_def)
qed

lemma disk_ok_same:
  assumes "disk_ok s" and "storage_ok s'" and "same_files s s'"
  shows "disk_ok s'"
proof -
  have "st_data s' = st_data s" "rows s' = rows s" using assms(3) by (simp_all add: same_files_def)
  then show ?thesis
    using assms(1,2) same_files_stored [OF assms(3)] by (simp add: disk_ok_def key_ok_def)
qed

lemma disk_ok_new: "disk_ok (Storage_new root)"
  by (simp add: disk_ok_def storage_ok_new)

definition valid_entry :: "Asset \<Rightarrow> string \<Rightarrow> bool" where
  "valid_entry a u \<longleftrightarrow> storable a u \<and> IsValidUUID u"

lemma valid_sql_text: "IsValidUUID u \<Longrightarrow> sql_text u"
proof -
  assume "IsValidUUID u"
  then have "\<forall>c \<in> set u. c \<in> set hexdigits" by (simp add: IsValidUUID_iff is_hex_def)
  moreover have "CHR 0x27 \<notin> set hexdigits" "CHR 0x00 \<notin> set hexdigits" by (simp_all add: hexdigits_def)
  ultimately show ?thesis unfolding sql_text_def list_all_iff by blast
qed

lemma valid_storable:
  "Asset_getUUID a = Inr u \<Longrightarrow> IsValidUUID u \<Longrightarrow> 34 \<le> length (getData a) \<Longrightarrow> length (getData a) < 2 ^ 32
     \<Longrightarrow> valid_entry a u"
  by (simp add: valid_entry_def storable_def valid_sql_text)

interpretation disk: asset_store disk_getAsset disk_storeAsset io_ok disk_ok stored IsValidUUID valid_entry
proof
  fix io s u assume h: "io_ok io" "disk_ok s" "IsValidUUID u"
  from disk_getAsset_run [OF disk_okD(1) [OF h(2)], of io u] h(1) valid_sql_text [OF h(3)] obtain s' where
    s': "disk_getAsset io u s = (Inr (stored s u), s')" "storage_ok s'" "same_files s s'" by blast
  then show "\<exists>s'. disk_getAsset io u s = (Inr (stored s u), s') \<and> disk_ok s' \<and> stored s' = stored s"
    using disk_ok_same [OF h(2) s'(2,3)] same_files_stored [OF s'(3)] by blast
next
  fix io s a u assume h: "io_ok io" "disk_ok s" "valid_entry a u" "stored s u = None"
  note s = disk_okD [OF h(2)]
  have new: "\<forall>b \<in> bases. u \<notin> row_ids s (getFullPathForUUID u, b @ ''.idx'')" using s(4) h(4) by blast
  have u: "storable a u" "Asset_getUUID a = Inr u" "IsValidUUID u"
    using h(3) by (simp_all add: valid_entry_def storable_def)
  from disk_storeAsset_run [OF s(1) u(2), of io]
  show "\<exists>s'. disk_storeAsset io a s = (Inr (), s') \<and> disk_ok s' \<and> stored s' = (stored s)(u \<mapsto> a)"
  proof (elim exE conjE)
    fix r s' assume run: "disk_storeAsset io a s = (r, s')" "storage_ok s'"
      and ids: "\<forall>p. row_keys s' p \<subseteq> row_keys s p
          \<union> (if (\<exists>b \<in> bases. p = (getFullPathForUUID u, b @ ''.idx'')) \<and> \<not> isl r then {(u, 0)} else {})"
      and empty: "\<forall>p. \<not> isl r \<and> st_data s' p = Some [] \<longrightarrow> st_data s p = Some []"
      and other: "\<forall>v. v \<noteq> u \<or> isl r \<longrightarrow> stored s' v = stored s v"
      and mine: "(\<forall>b \<in> bases. st_data s (getFullPathForUUID u, b @ ''.data'') \<noteq> Some [])
         \<and> \<not> isl r \<and> stored s u = None \<longrightarrow> stored s' u = Some a"
      and ok: "io_ok io \<and> storable a u \<and> (\<forall>b \<in> bases. u \<notin> row_ids s (getFullPathForUUID u, b @ ''.idx'')) \<longrightarrow> \<not> isl r"
    have r: "\<not> isl r" using ok h(1) u(1) new by blast
    then have "r = Inr ()" by (cases r) auto
    have st: "stored s' = (stored s)(u \<mapsto> a)" using other mine s(2) h(4) r by (auto simp: fun_eq_iff)
    have "disk_ok s'"
      unfolding disk_ok_def
    proof (intro conjI allI ballI run(2))
      show "st_data s' p \<noteq> Some []" for p using empty r s(2) by blast
      fix p x assume "x \<in> row_keys s' p"
      then consider "x \<in> row_keys s p" | "\<exists>b \<in> bases. p = (getFullPathForUUID u, b @ ''.idx'')" "x = (u, 0)"
        using ids [rule_format, of p] by (auto split: if_splits)
      then show "key_ok s' p x"
        by cases (use s(3) [of x p] u(3) in \<open>auto simp: key_ok_def st\<close>)
    qed
    with run(1) \<open>r = Inr ()\<close> st show ?thesis by blast
  qed
qed (simp add: valid_entry_def)

section \<open>The index files of a disk\<close>

text \<open>
  When no statement fails, every index file has its tables if it had them before, and there are no
  new ones but those of the set \<open>D\<close>.
\<close>

definition idx_tables :: "Storage \<Rightarrow> bool" where
  "idx_tables s \<longleftrightarrow> (\<forall>p db. st_idx s p = Some db \<longrightarrow> db_tables db)"

definition idx_step :: "path set \<Rightarrow> Storage \<Rightarrow> Storage \<Rightarrow> bool" where
  "idx_step D s s' \<longleftrightarrow> (idx_tables s \<longrightarrow> idx_tables s') \<and> (\<forall>p. st_idx s' p \<noteq> None \<longrightarrow> st_idx s p \<noteq> None \<or> p \<in> D)"

lemma idx_step_order [simp, intro]: "reflp (idx_step D)" "transp (idx_step D)"
  unfolding idx_step_def reflp_def transp_def by blast+

lemma idx_step_same: "st_idx s' = st_idx s \<Longrightarrow> idx_step D s s'"
  by (simp add: idx_step_def idx_tables_def)

lemma idx_step_insert: "p \<in> D \<Longrightarrow> db_tables db \<Longrightarrow> idx_step D s (s\<lparr>st_idx := (st_idx s)(p \<mapsto> db)\<rparr>)"
  by (auto simp: idx_step_def idx_tables_def)

lemma changes_idx_same: "(\<And>s. st_idx (snd (m s)) = st_idx s) \<Longrightarrow> changes (idx_step D) m"
  by (simp add: changes_def idx_step_same)

lemma posix_idx:
  "changes (idx_step D) (posix_open io p mode)" "changes (idx_step D) (posix_size io f)" "changes (idx_step D) (posix_read io rc f n)"
  "changes (idx_step D) (posix_write io wc f d)" "changes (idx_step D) (posix_seek io f i)"
  by (rule changes_idx_same;
      simp add: posix_open_def posix_size_def posix_read_def posix_write_def posix_seek_def Let_def split: option.split)+

lemma data_file_idx:
  "changes (idx_step D) (getAssetAtPosition io p i)" "changes (idx_step D) (writeNewAsset io p a)"
  unfolding getAssetAtPosition_def writeNewAsset_def open_for_append_def write_record_def Let_def
  by (intro changes_abind changes_pure changes_if idx_step_order posix_idx; simp split: prod.split;
      intro conjI impI allI changes_abind changes_pure changes_if idx_step_order posix_idx; simp split: prod.split;
      intro conjI impI allI changes_abind changes_pure changes_if idx_step_order posix_idx)+

lemma SQLiteIndexFile_new_idx:
  assumes "io_sql io = (\<lambda>_ _. None)" and "p \<in> D"
  shows "changes (idx_step D) (SQLiteIndexFile_new io p)"
  unfolding changes_def
proof
  fix s
  let ?t = "\<lparr>db_tables = True, db_rows = []\<rparr>"
  have init: "initializeDatabase io p t = (Inr (), t\<lparr>st_idx := (st_idx t)(p \<mapsto> ?t)\<rparr>)" for t
    using initializeDatabase_cases [of io p t] assms(1) by auto
  have "snd (SQLiteIndexFile_new io p s) = s \<or> snd (SQLiteIndexFile_new io p s) = s\<lparr>st_idx := (st_idx s)(p \<mapsto> ?t)\<rparr>"
    using assms(1) by (auto simp: SQLiteIndexFile_new_def abind_def init empty_db_def split: option.split)
  then show "idx_step D s (snd (SQLiteIndexFile_new io p s))"
    using idx_step_insert [OF assms(2), of ?t s] idx_step_same [of s s D] by auto
qed

lemma openIndexFile_idx:
  assumes "io_sql io = (\<lambda>_ _. None)" and "p \<in> D"
  shows "changes (idx_step D) (openIndexFile io p)"
  unfolding changes_def
proof
  fix s
  let ?k = "path_string s p"
  let ?ins = "\<lambda>f s. case lru_insert EntryCountCalculator (st_open s) ?k f of
      Inl e \<Rightarrow> (Inl e, s) | Inr c \<Rightarrow> (Inr f, s\<lparr>st_open := c\<rparr>)"
  have "changes (idx_step D) (abind (SQLiteIndexFile_new io p) ?ins)"
    by (intro changes_abind idx_step_order SQLiteIndexFile_new_idx [OF assms] changes_idx_same) (simp split: sum.split)
  then have "idx_step D (s\<lparr>st_open := c\<rparr>) (snd (abind (SQLiteIndexFile_new io p) ?ins (s\<lparr>st_open := c\<rparr>)))" for c
    by (simp add: changes_def)
  then show "idx_step D s (snd (openIndexFile io p s))"
    by (auto simp: openIndexFile_def Let_def idx_step_same idx_step_def idx_tables_def split: sum.split option.split)
qed

definition dir_indexes :: "string \<Rightarrow> path set" where
  "dir_indexes dir = {(dir, ''globals.idx''), (dir, ''locals.idx'')}"

lemma open_set_idx:
  assumes "io_sql io = (\<lambda>_ _. None)"
  shows "changes (idx_step (dir_indexes (getFullPathForUUID u))) (verifyAndopenSetForUUID io u)"
proof -
  let ?d = "getFullPathForUUID u"
  have new: "changes (idx_step (dir_indexes ?d)) (VFSDatabase_new io b ?d)" if "(?d, b @ ''.idx'') \<in> dir_indexes ?d" for b
  proof -
    have "changes (idx_step (dir_indexes ?d)) (abind (openIndexFile io (?d, b @ ''.idx''))
        (\<lambda>idx. areturn \<lparr>vd_index = idx, vd_data = (?d, b @ ''.data'')\<rparr>))"
      by (intro changes_abind idx_step_order openIndexFile_idx [OF assms that] changes_pure)
    then show ?thesis by (simp add: changes_def VFSDatabase_new_def idx_step_same)
  qed
  have "changes (idx_step (dir_indexes ?d)) (abind (verifyDatabaseDirectory io u) (\<lambda>_. DatabaseSet_new io ?d))"
    unfolding DatabaseSet_new_def
    by (intro changes_abind idx_step_order new changes_pure changes_idx_same)
      (simp_all add: verifyDatabaseDirectory_def dir_indexes_def Let_def split: mkdir_answer.split)
  then have k: "idx_step (dir_indexes ?d) s (snd (abind (verifyDatabaseDirectory io u) (\<lambda>_. DatabaseSet_new io ?d) s))" for s
    by (simp add: changes_def)
  show ?thesis
    unfolding changes_def
  proof
    fix s
    show "idx_step (dir_indexes ?d) s (snd (verifyAndopenSetForUUID io u s))"
      using k [of s] by (auto simp: verifyAndopenSetForUUID_def split: prod.split sum.split exn.split)
  qed
qed

lemma index_idx:
  "p \<in> D \<Longrightarrow> changes (idx_step D) (recordAssetPosition io p a i)" "changes (idx_step D) (findAssetPosition io p u)"
proof -
  have check: "changes (idx_step D) (sql_check io p c)" for c by (rule changes_idx_same) (simp add: sql_check_def split: option.split)
  show "changes (idx_step D) (findAssetPosition io p u)"
    unfolding findAssetPosition_def by (intro changes_if changes_abind changes_pure idx_step_order check)
  assume "p \<in> D"
  then have ins: "idx_step D s (s\<lparr>st_idx := (st_idx s)(p \<mapsto> \<lparr>db_tables = True, db_rows = rs\<rparr>)\<rparr>)" for s rs
    by (rule idx_step_insert) simp
  show "changes (idx_step D) (recordAssetPosition io p a i)"
    unfolding recordAssetPosition_def
    by (intro changes_if changes_abind changes_pure idx_step_order check) (simp add: changes_def ins idx_step_same)
qed

lemma set_idx:
  "changes (idx_step D) (set_getAsset io db u)"
  "vd_index (globalDB db) \<in> D \<Longrightarrow> vd_index (localDB db) \<in> D \<Longrightarrow> changes (idx_step D) (set_storeAsset io db a)"
proof -
  have get: "changes (idx_step D) (db_getAsset io v u)" for v
    unfolding db_getAsset_def by (intro changes_if changes_abind changes_pure idx_step_order index_idx data_file_idx)
  show "changes (idx_step D) (set_getAsset io db u)"
    unfolding set_getAsset_def by (intro changes_abind idx_step_order get) (auto split: option.split intro: changes_pure get)
  have put: "changes (idx_step D) (db_storeAsset io v a)" if "vd_index v \<in> D" for v
    unfolding db_storeAsset_def db_assetExists_def
    by (intro changes_if changes_abind changes_pure idx_step_order index_idx data_file_idx that)
  show "changes (idx_step D) (set_storeAsset io db a)" if "vd_index (globalDB db) \<in> D" "vd_index (localDB db) \<in> D"
    unfolding set_storeAsset_def using that by (intro changes_abind changes_pure idx_step_order put) simp
qed

lemma disk_idx:
  assumes "io_sql io = (\<lambda>_ _. None)"
  shows "changes (idx_step (dir_indexes (getFullPathForUUID u))) (disk_getAsset io u)"
    and "storage_ok s \<Longrightarrow> Asset_getUUID a = Inr u \<Longrightarrow> idx_step (dir_indexes (getFullPathForUUID u)) s (snd (disk_storeAsset io a s))"
proof -
  let ?D = "dir_indexes (getFullPathForUUID u)"
  show "changes (idx_step ?D) (disk_getAsset io u)"
    unfolding disk_getAsset_def by (intro changes_abind idx_step_order open_set_idx [OF assms] set_idx)
  assume s: "storage_ok s" "Asset_getUUID a = Inr u"
  obtain r t where t: "verifyAndopenSetForUUID io u s = (r, t)" "r = Inr (database_set (getFullPathForUUID u)) \<or> (\<exists>e. r = Inl e)"
    using verifyAndopenSetForUUID_ok [OF s(1), of io u] by blast
  have 1: "idx_step ?D s t" using open_set_idx [OF assms, of u] t(1) by (metis changes_def snd_conv)
  have 2: "idx_step ?D t (snd (set_storeAsset io (database_set (getFullPathForUUID u)) a t))"
    using set_idx(2) [of "database_set (getFullPathForUUID u)" ?D io a]
    by (simp add: database_set_def dir_indexes_def changes_def)
  show "idx_step ?D s (snd (disk_storeAsset io a s))"
    using t s(2) 1 transpD [OF idx_step_order(2) 1 2] by (auto simp: disk_storeAsset_def abind_def)
qed

lemma deletion_idx: "changes (idx_step D) (performLocalsPhysicalDeletion io dir)"
proof -
  have rm: "changes (idx_step D) (remove_file io p (\<lambda>s. s\<lparr>st_idx := (st_idx s)(p := None)\<rparr>))" for p
    unfolding remove_file_def
    by (intro changes_if changes_pure idx_step_order) (auto simp: changes_def idx_step_def idx_tables_def)
  show ?thesis
    unfolding performLocalsPhysicalDeletion_def Let_def
    by (intro changes_abind idx_step_order rm changes_idx_same)
      (auto simp: forceCloseIndexFile_def remove_file_def Let_def split: sum.split option.split)
qed

end
