(* ===== verification/Backend.thy ===== *)
theory Backend
  imports Storage
begin

text \<open>
  The asynchronous storage backend (\<open>VFSBackend\<close>): the existence index built at startup
  (\<open>ExistenceIndex\<close>), the queue of requests (\<open>VFSQueueTypes\<close>) its worker thread takes from, and
  the handlers it posts to the thread of the connections.  A step is one call from a connection,
  one request of the worker or one posted handler; both threads share only the queue, the index and
  the list of posted handlers, each under its lock.
\<close>

section \<open>Moving averages\<close>

record MovingAverage =
  ma_capacity :: nat
  ma_buffer :: "int list"

definition MovingAverage_new :: "nat \<Rightarrow> MovingAverage" where
  "MovingAverage_new sampleSize = \<lparr>ma_capacity = sampleSize, ma_buffer = []\<rparr>"

text \<open>\<open>push_back\<close> on a full circular buffer overwrites the oldest sample.\<close>

definition addSample :: "int \<Rightarrow> MovingAverage \<Rightarrow> MovingAverage" where
  "addSample x m = m\<lparr>ma_buffer :=
     drop (Suc (length (ma_buffer m)) - ma_capacity m) (ma_buffer m @ [x])\<rparr>"

text \<open>An \<open>int\<close> sum that overflows is undefined; the quotient is truncated towards zero.\<close>

definition int_sum :: "int list \<Rightarrow> int result" where
  "int_sum xs = foldl (\<lambda>r x. ebind r (\<lambda>a.
      if a + x < - (2 ^ 31) \<or> 2 ^ 31 \<le> a + x then Inl UndefinedBehaviour else Inr (a + x))) (Inr 0) xs"

definition getAverage :: "MovingAverage \<Rightarrow> int result" where
  "getAverage m =
     (if length (ma_buffer m) > 0
      then ebind (int_sum (ma_buffer m)) (\<lambda>sum.
             Inr (sgn sum * (\<bar>sum\<bar> div int (length (ma_buffer m)))))
      else Inr 0)"

section \<open>The existence index\<close>

type_synonym ExistenceIndex = "uuid set"

definition index_assetExists :: "string \<Rightarrow> ExistenceIndex \<Rightarrow> bool result" where
  "index_assetExists assetId ix = ebind (uuid_value assetId) (\<lambda>u. Inr (u \<in> ix))"

definition addNewId :: "string \<Rightarrow> ExistenceIndex \<Rightarrow> ExistenceIndex result" where
  "addNewId assetId ix = ebind (uuid_value assetId) (\<lambda>u. Inr (insert u ix))"

definition removeId :: "uuid \<Rightarrow> ExistenceIndex \<Rightarrow> ExistenceIndex" where
  "removeId u ix = ix - {u}"

definition rowCallback :: "IndexRow \<Rightarrow> ExistenceIndex \<Rightarrow> ExistenceIndex result" where
  "rowCallback r ix = (if deleted r = 0 then addNewId (asset_id r) ix else Inr ix)"

fun add_rows :: "IndexRow list \<Rightarrow> ExistenceIndex \<Rightarrow> ExistenceIndex result" where
  "add_rows [] ix = Inr ix"
| "add_rows (r # rs) ix = ebind (rowCallback r ix) (add_rows rs)"

text \<open>A file without the table makes the statement fail.\<close>

definition loadIndexFile :: "Io \<Rightarrow> Storage \<Rightarrow> path \<Rightarrow> ExistenceIndex \<Rightarrow> ExistenceIndex result" where
  "loadIndexFile io s p ix =
     (case io_sql io p SqlOpen of Some (m, k) \<Rightarrow> Inl (SQLiteError m k) | None \<Rightarrow>
     (case io_sql io p SqlList of Some (m, k) \<Rightarrow> Inl (SQLiteError m k) | None \<Rightarrow>
     (case st_idx s p of
        Some db \<Rightarrow> (if db_tables db then add_rows (db_rows db) ix
                    else Inl (SQLiteError ''[SQLiteConnection] Unable to prepare query: no such table: VFSDataIndex'' 1))
      | None \<Rightarrow> Inl (SQLiteError ''[SQLiteConnection] Unable to prepare query: no such table: VFSDataIndex'' 1))))"

definition has_idx_extension :: "string \<Rightarrow> bool" where
  "has_idx_extension f = (drop (length f - 4) f = ''.idx'' \<and> 4 \<le> length f)"

fun load_files :: "Io \<Rightarrow> Storage \<Rightarrow> path list \<Rightarrow> ExistenceIndex \<Rightarrow> ExistenceIndex result" where
  "load_files io s [] ix = Inr ix"
| "load_files io s (p # ps) ix = ebind (loadIndexFile io s p ix) (load_files io s ps)"

text \<open>
  \<open>files\<close> lists what a directory iterator finds: the directories of the root with, for each, the
  names of the plain files in it.
\<close>

definition processDirectory :: "Io \<Rightarrow> Storage \<Rightarrow> string \<Rightarrow> string list \<Rightarrow> ExistenceIndex \<Rightarrow> ExistenceIndex result" where
  "processDirectory io s dir names = load_files io s (map (Pair dir) (filter has_idx_extension names))"

fun ExistenceIndex_new :: "Io \<Rightarrow> Storage \<Rightarrow> (string \<times> string list) list \<Rightarrow> ExistenceIndex \<Rightarrow> ExistenceIndex result" where
  "ExistenceIndex_new io s [] ix = Inr ix"
| "ExistenceIndex_new io s ((dir, names) # ds) ix =
     ebind (processDirectory io s dir names ix) (ExistenceIndex_new io s ds)"

section \<open>Requests and posted handlers\<close>

type_synonym journal = nat

text \<open>
  A callback is a value of the caller's type; a journal is a stream the caller made.
\<close>

datatype 'c AssetRequest =
    AssetGetRequest string 'c
  | AssetPutRequest Asset 'c
  | AssetPurgeRequest string bool "'c option"
  | DeleteLocalStorageRequest string
  | CollectStatusRequest journal 'c
  | GetStoredAssetIdsRequest string journal 'c

datatype AssetRequestType =
    AR_GET | AR_PUT | AR_PURGE | AR_PURGE_LOCALS | AR_DELETE_LOCAL_STORAGE | AR_STATUS_GET
  | AR_STORED_ASSET_IDS_GET

fun AssetRequest_getType :: "'c AssetRequest \<Rightarrow> AssetRequestType" where
  "AssetRequest_getType (AssetGetRequest _ _) = AR_GET"
| "AssetRequest_getType (AssetPutRequest _ _) = AR_PUT"
| "AssetRequest_getType (AssetPurgeRequest _ isPurgeLocalsRequest _) =
     (if isPurgeLocalsRequest then AR_PURGE_LOCALS else AR_PURGE)"
| "AssetRequest_getType (DeleteLocalStorageRequest _) = AR_DELETE_LOCAL_STORAGE"
| "AssetRequest_getType (CollectStatusRequest _ _) = AR_STATUS_GET"
| "AssetRequest_getType (GetStoredAssetIdsRequest _ _ _) = AR_STORED_ASSET_IDS_GET"

fun getDescription :: "'c AssetRequest \<Rightarrow> string result" where
  "getDescription (AssetGetRequest assetId _) = Inr (''GET '' @ assetId)"
| "getDescription (AssetPutRequest asset _) = ebind (Asset_getUUID asset) (\<lambda>u. Inr (''PUT '' @ u))"
| "getDescription (AssetPurgeRequest _ _ _) = Inr ''PURGE''"
| "getDescription (DeleteLocalStorageRequest prefix) = Inr (''DELETE LOCAL STORAGE '' @ prefix)"
| "getDescription (CollectStatusRequest _ _) = Inr ''COLLECT STATUS''"
| "getDescription (GetStoredAssetIdsRequest _ _ _) = Inr ''GET STORED IDS''"

text \<open>A request with the time in microseconds at which it was made.\<close>

type_synonym 'c queued = "'c AssetRequest \<times> int"

definition to_int :: "int \<Rightarrow> int" where
  "to_int i = sint (word_of_int i :: 32 word)"

definition queueDuration :: "int \<Rightarrow> 'c queued \<Rightarrow> int" where
  "queueDuration now r = to_int ((now - snd r) div 1000)"

datatype 'c posted =
    PostGet 'c "Asset option" bool "exn option"
  | PostStore 'c bool "exn option"
  | PostDone 'c
  | PostAssetWriteFailed string string
  | PostIoLoopFailed string
  | PostUnindexLocals "uuid list option" string

section \<open>The backend\<close>

record 'c VFSBackend =
  be_disk :: Storage
  be_index :: ExistenceIndex
  be_queue :: "'c queued list"
  be_posted :: "'c posted list"
  be_stop :: bool
  be_purging :: bool
  be_purge_index :: int
  be_timer :: bool
  be_latency :: MovingAverage
  be_op :: MovingAverage
  be_push :: "Asset list"
  be_journal :: "journal \<Rightarrow> string"

definition DISK_LATENCY_SAMPLE_SIZE :: nat where
  "DISK_LATENCY_SAMPLE_SIZE = 50"

definition VFSBackend_new :: "Io \<Rightarrow> Storage \<Rightarrow> (string \<times> string list) list option \<Rightarrow> 'c VFSBackend result" where
  "VFSBackend_new io disk listing =
     (case listing of
        None \<Rightarrow> Inl (RuntimeError (''Unable to start storage backend, the storage root '' @ [CHR 0x27]
                  @ st_root disk @ [CHR 0x27] @ '' was not found''))
      | Some ds \<Rightarrow>
          ebind (ExistenceIndex_new io disk ds {}) (\<lambda>ix.
          Inr \<lparr>be_disk = disk\<lparr>st_open := LRUCache_new MAX_OPEN_FILES\<rparr>, be_index = ix, be_queue = [], be_posted = [],
               be_stop = False, be_purging = False, be_purge_index = 0, be_timer = False,
               be_latency = MovingAverage_new DISK_LATENCY_SAMPLE_SIZE,
               be_op = MovingAverage_new DISK_LATENCY_SAMPLE_SIZE, be_push = [], be_journal = (\<lambda>_. [])\<rparr>))"

definition post :: "'c posted \<Rightarrow> ('c VFSBackend, unit) action" where
  "post h = amodify (\<lambda>b. b\<lparr>be_posted := be_posted b @ [h]\<rparr>)"

definition enqueue :: "int \<Rightarrow> 'c AssetRequest \<Rightarrow> ('c VFSBackend, unit) action" where
  "enqueue now req = amodify (\<lambda>b. b\<lparr>be_queue := be_queue b @ [(req, now)]\<rparr>)"

definition on_disk :: "(Storage, 'a) action \<Rightarrow> ('c VFSBackend, 'a) action" where
  "on_disk m b = (case m (be_disk b) of (r, d) \<Rightarrow> (r, b\<lparr>be_disk := d\<rparr>))"

definition journal_append :: "journal \<Rightarrow> string \<Rightarrow> ('c VFSBackend, unit) action" where
  "journal_append j t = amodify (\<lambda>b. b\<lparr>be_journal := (be_journal b)(j := be_journal b j @ t)\<rparr>)"

subsection \<open>Calls from the connections\<close>

definition be_assetExists :: "string \<Rightarrow> 'c VFSBackend \<Rightarrow> bool result" where
  "be_assetExists uuid b = index_assetExists uuid (be_index b)"

definition be_getAsset :: "int \<Rightarrow> string \<Rightarrow> 'c \<Rightarrow> ('c VFSBackend, unit) action" where
  "be_getAsset now uuid callBack =
     abind (\<lambda>b. (index_assetExists uuid (be_index b), b)) (\<lambda>there.
     if \<not> there
     then post (PostGet callBack None False (Some (AssetStorageError
            (''Could not retrieve asset '' @ uuid @ '', asset not found'') False)))
     else enqueue now (AssetGetRequest uuid callBack))"

definition be_storeAsset :: "int \<Rightarrow> Asset \<Rightarrow> 'c \<Rightarrow> ('c VFSBackend, unit) action" where
  "be_storeAsset now asset callBack =
     abind (alift (Asset_getUUID asset)) (\<lambda>uuid.
     abind (\<lambda>b. (index_assetExists uuid (be_index b), b)) (\<lambda>there.
     if there
     then post (PostStore callBack False (Some (AssetStorageError
            (''Unable to store asset '' @ uuid @ '', asset already exists'') False)))
     else
       abind (\<lambda>b. case addNewId uuid (be_index b) of
                    Inl e \<Rightarrow> (Inl e, b) | Inr ix \<Rightarrow> (Inr (), b\<lparr>be_index := ix\<rparr>)) (\<lambda>_.
       enqueue now (AssetPutRequest asset callBack))))"

definition be_purgeAsset :: "int \<Rightarrow> string \<Rightarrow> 'c \<Rightarrow> ('c VFSBackend, unit) action" where
  "be_purgeAsset now uuid callBack = enqueue now (AssetPurgeRequest uuid False (Some callBack))"

definition beginPurgeLocals :: "('c VFSBackend, unit) action" where
  "beginPurgeLocals = amodify (\<lambda>b.
     if \<not> be_purging b then b\<lparr>be_purging := True, be_purge_index := 0, be_timer := True\<rparr> else b)"

text \<open>The index in hexadecimal, filled with zeros to three characters.\<close>

fun show_hex :: "nat \<Rightarrow> string" where
  "show_hex n = (if n < 16 then [hexdigits ! n] else show_hex (n div 16) @ [hexdigits ! (n mod 16)])"

declare show_hex.simps [simp del]

definition setw :: "nat \<Rightarrow> string \<Rightarrow> string" where
  "setw w t = replicate (w - length t) (CHR ''0'') @ t"

definition onPurgeTimer :: "int \<Rightarrow> bool \<Rightarrow> ('c VFSBackend, unit) action" where
  "onPurgeTimer now error =
     (if \<not> error then
        abind (aget be_purge_index) (\<lambda>i.
        abind (amodify (\<lambda>b. b\<lparr>be_timer := False, be_purge_index := i + 1\<rparr>)) (\<lambda>_.
        abind (enqueue now (AssetPurgeRequest (setw UUID_PATH_CHARS (show_hex (nat i))) True None)) (\<lambda>_.
        amodify (\<lambda>b. if be_purge_index b \<le> 0xFFF then b\<lparr>be_timer := True\<rparr>
                     else b\<lparr>be_purging := False\<rparr>))))
      else amodify (\<lambda>b. b\<lparr>be_timer := False\<rparr>))"

definition be_getStatus :: "int \<Rightarrow> journal \<Rightarrow> 'c \<Rightarrow> ('c VFSBackend, unit) action" where
  "be_getStatus now j completedCallback = enqueue now (CollectStatusRequest j completedCallback)"

definition getStoredAssetIDsWithPrefix :: "int \<Rightarrow> string \<Rightarrow> journal \<Rightarrow> 'c \<Rightarrow> ('c VFSBackend, unit) action" where
  "getStoredAssetIDsWithPrefix now prefix j completedCallback =
     enqueue now (GetStoredAssetIdsRequest prefix j completedCallback)"

definition be_shutdown :: "('c VFSBackend, unit) action" where
  "be_shutdown = amodify (\<lambda>b. b\<lparr>be_stop := True, be_disk := manager_shutdown (be_disk b)\<rparr>)"

subsection \<open>Requests on the worker thread\<close>

definition performDiskWrite :: "Io \<Rightarrow> Asset \<Rightarrow> 'c \<Rightarrow> ('c VFSBackend, unit) action" where
  "performDiskWrite io asset callBack =
     acatch
       (abind (on_disk (disk_storeAsset io asset)) (\<lambda>_.
        abind (post (PostStore callBack True None)) (\<lambda>_.
        amodify (\<lambda>b. b\<lparr>be_push := be_push b @ [asset]\<rparr>))))
       (\<lambda>e. case e of
          AssetStorageError m c \<Rightarrow> post (PostStore callBack False (Some e))
        | _ \<Rightarrow>
            abind (alift (Asset_getUUID asset)) (\<lambda>uuid.
            abind (post (PostAssetWriteFailed uuid (what e))) (\<lambda>_.
            post (PostStore callBack False (Some (AssetStorageError (what e) False))))))"

definition performDiskRead :: "Io \<Rightarrow> string \<Rightarrow> 'c \<Rightarrow> ('c VFSBackend, unit) action" where
  "performDiskRead io assetId callBack =
     acatch
       (abind (on_disk (disk_getAsset io assetId)) (\<lambda>asset.
        case asset of
          Some a \<Rightarrow> post (PostGet callBack (Some a) True None)
        | None \<Rightarrow> post (PostGet callBack None False (Some (AssetStorageError
                    (''Asset '' @ assetId @ '' not found'') False)))))
       (\<lambda>e. case e of
          AssetStorageError m c \<Rightarrow> post (PostGet callBack None False (Some e))
        | _ \<Rightarrow> post (PostGet callBack None False (Some (AssetStorageError (what e) False))))"

definition performDiskPurge :: "string \<Rightarrow> 'c option \<Rightarrow> ('c VFSBackend, unit) action" where
  "performDiskPurge assetId callBack = areturn ()"

definition performDiskPurgeLocals :: "Io \<Rightarrow> string \<Rightarrow> ('c VFSBackend, unit) action" where
  "performDiskPurgeLocals io uuidHead =
     (let indexPath = (uuidHead, ''locals.idx'') in
      abind (aget (\<lambda>b. st_idx (be_disk b) indexPath \<noteq> None)) (\<lambda>there.
      abind (if there
             then abind (on_disk (openIndexFile io indexPath)) (\<lambda>f.
                  abind (on_disk (getContainedAssetIds io f)) (\<lambda>ids. areturn (Some ids)))
             else areturn None) (\<lambda>containedIds.
      post (PostUnindexLocals containedIds uuidHead))))"

definition performGetStatus :: "journal \<Rightarrow> 'c \<Rightarrow> ('c VFSBackend, unit) action" where
  "performGetStatus j completedCallback =
     (let line = (\<lambda>t. journal_append j (t @ [CHR 0x0A])) in
      abind (line ''-VFS Backend'') (\<lambda>_.
      abind (aget be_queue) (\<lambda>q.
      abind (line (''  Disk queue size: '' @ show_nat (length q))) (\<lambda>_.
      abind (\<lambda>b. (getAverage (be_latency b), b)) (\<lambda>l.
      abind (line (''  Avg Disk Queue Wait: '' @ show_int l @ '' ms'')) (\<lambda>_.
      abind (\<lambda>b. (getAverage (be_op b), b)) (\<lambda>d.
      abind (line (''  Avg Disk Op Latency: '' @ show_int d @ '' ms'')) (\<lambda>_.
      abind (line ''-VFS Queue Items'') (\<lambda>_.
      abind (foldr (\<lambda>r m. abind (alift (getDescription (fst r))) (\<lambda>d.
               abind (line (''  '' @ d)) (\<lambda>_. m))) q (areturn ())) (\<lambda>_.
      post (PostDone completedCallback)))))))))))"

definition performGetStoredAssetIds :: "Io \<Rightarrow> string \<Rightarrow> journal \<Rightarrow> 'c \<Rightarrow> ('c VFSBackend, unit) action" where
  "performGetStoredAssetIds io prefix j completedCallback =
     (let indexPath = (prefix, ''globals.idx'') in
      abind (aget (\<lambda>b. st_idx (be_disk b) indexPath \<noteq> None)) (\<lambda>there.
      abind (if there
             then abind (on_disk (openIndexFile io indexPath)) (\<lambda>f.
                  abind (on_disk (getContainedAssetIdStrings io f)) (\<lambda>ids.
                  journal_append j (concat (map (\<lambda>i. i @ '','') ids))))
             else areturn ()) (\<lambda>_.
      post (PostDone completedCallback))))"

fun processRequest :: "Io \<Rightarrow> 'c AssetRequest \<Rightarrow> ('c VFSBackend, unit) action" where
  "processRequest io (AssetGetRequest assetId callBack) = performDiskRead io assetId callBack"
| "processRequest io (AssetPutRequest asset callBack) = performDiskWrite io asset callBack"
| "processRequest io (AssetPurgeRequest assetId isPurgeLocalsRequest callBack) =
     (if isPurgeLocalsRequest then performDiskPurgeLocals io assetId
      else performDiskPurge assetId callBack)"
| "processRequest io (DeleteLocalStorageRequest uuidPrefix) =
     on_disk (performLocalsPhysicalDeletion io uuidPrefix)"
| "processRequest io (CollectStatusRequest j callBack) = performGetStatus j callBack"
| "processRequest io (GetStoredAssetIdsRequest prefix j callBack) =
     performGetStoredAssetIds io prefix j callBack"

text \<open>
  One turn of the loop.  The clock is read when the request is taken, before and after it is
  processed; the worker waits while the queue is empty and leaves the loop once stopped.
\<close>

definition workLoop_turn :: "Io \<Rightarrow> int \<times> int \<times> int \<Rightarrow> ('c VFSBackend, unit) action" where
  "workLoop_turn io t b =
     (case be_queue b of
        [] \<Rightarrow> (Inr (), b)
      | req # rest \<Rightarrow>
          if be_stop b then (Inr (), b)
          else acatch
            (abind (amodify (\<lambda>b. b\<lparr>be_queue := rest,
               be_latency := addSample (queueDuration (fst t) req) (be_latency b)\<rparr>)) (\<lambda>_.
             abind (processRequest io (fst req)) (\<lambda>_.
             amodify (\<lambda>b. b\<lparr>be_op := addSample (to_int ((snd (snd t) - fst (snd t)) div 1000)) (be_op b)\<rparr>))))
            (\<lambda>e. post (PostIoLoopFailed (what e))) b)"

subsection \<open>Posted handlers\<close>

definition assetWriteFailed :: "string \<Rightarrow> ('c VFSBackend, unit) action" where
  "assetWriteFailed assetId =
     abind (alift (uuid_value assetId)) (\<lambda>u.
     amodify (\<lambda>b. b\<lparr>be_index := removeId u (be_index b)\<rparr>))"

definition unindexLocals :: "int \<Rightarrow> uuid list option \<Rightarrow> string \<Rightarrow> ('c VFSBackend, unit) action" where
  "unindexLocals now uuidList uuidHead =
     abind (case uuidList of
              Some ids \<Rightarrow> amodify (\<lambda>b. b\<lparr>be_index := foldl (\<lambda>ix u. removeId u ix) (be_index b) ids\<rparr>)
            | None \<Rightarrow> areturn ()) (\<lambda>_.
     enqueue now (DeleteLocalStorageRequest uuidHead))"

definition ioLoopFailed :: "string \<Rightarrow> ('c VFSBackend, unit) action" where
  "ioLoopFailed reason = areturn ()"

text \<open>
  The thread of the connections takes the first posted handler.  A callback is code of the caller
  and is given back to it.
\<close>

definition run_posted :: "int \<Rightarrow> ('c VFSBackend, 'c posted option) action" where
  "run_posted now b =
     (case be_posted b of
        [] \<Rightarrow> (Inr None, b)
      | h # hs \<Rightarrow>
          (case h of
             PostAssetWriteFailed assetId reason \<Rightarrow> abind (assetWriteFailed assetId) (\<lambda>_. areturn None)
           | PostIoLoopFailed reason \<Rightarrow> abind (ioLoopFailed reason) (\<lambda>_. areturn None)
           | PostUnindexLocals ids uuidHead \<Rightarrow> abind (unindexLocals now ids uuidHead) (\<lambda>_. areturn None)
           | _ \<Rightarrow> areturn (Some h)) (b\<lparr>be_posted := hs\<rparr>))"

section \<open>The index at startup\<close>

lemma uuid_value_valid: "IsValidUUID t \<Longrightarrow> uuid_value t = Inr (uuid_of t)"
  by (simp add: uuid_value_def uuid_of_cstring_valid(1))

lemma add_rows_ok:
  "\<forall>r \<in> set rs. IsValidUUID (asset_id r) \<and> deleted r = 0 \<Longrightarrow>
     add_rows rs ix = Inr (ix \<union> uuid_of ` asset_id ` set rs)"
  by (induction rs arbitrary: ix) (auto simp: rowCallback_def addNewId_def uuid_value_valid)

text \<open>
  Index files that are there with their tables; a start that succeeds has found only such.
\<close>

definition listed :: "Storage \<Rightarrow> path list \<Rightarrow> bool" where
  "listed s ps \<longleftrightarrow> (\<forall>p \<in> set ps. \<exists>db. st_idx s p = Some db \<and> db_tables db)"

lemma load_files_ok:
  assumes "disk_ok s" and "io_sql io = (\<lambda>_ _. None)" and "listed s ps"
  shows "load_files io s ps ix = Inr (ix \<union> uuid_of ` (\<Union>p \<in> set ps. row_ids s p))"
  using assms(3)
proof (induction ps arbitrary: ix)
  case (Cons p ps)
  obtain db where db: "st_idx s p = Some db" "db_tables db"
    using Cons.prems by (auto simp: listed_def)
  have "IsValidUUID (asset_id r) \<and> deleted r = 0" if "r \<in> set (db_rows db)" for r
    using disk_okD(3) [OF assms(1), of "(asset_id r, deleted r)" p] that db(1)
    by (auto simp: key_ok_def rows_def)
  then have "loadIndexFile io s p ix = Inr (ix \<union> uuid_of ` row_ids s p)"
    using assms(2) db by (simp add: loadIndexFile_def add_rows_ok rows_def)
  then show ?case using Cons by (simp add: listed_def image_Un Un_assoc)
qed simp

definition idx_files :: "(string \<times> string list) list \<Rightarrow> path list" where
  "idx_files ds = concat (map (\<lambda>(dir, names). map (Pair dir) (filter has_idx_extension names)) ds)"

lemma ExistenceIndex_new_ok:
  assumes "disk_ok s" and "io_sql io = (\<lambda>_ _. None)" and "listed s (idx_files ds)"
  shows "ExistenceIndex_new io s ds ix = Inr (ix \<union> uuid_of ` (\<Union>p \<in> set (idx_files ds). row_ids s p))"
  using assms(3)
proof (induction ds arbitrary: ix)
  case (Cons d ds)
  obtain dir names where d: "d = (dir, names)" by (cases d)
  have "listed s (map (Pair dir) (filter has_idx_extension names))" "listed s (idx_files ds)"
    using Cons.prems by (auto simp: listed_def idx_files_def d)
  then show ?case
    using load_files_ok [OF assms(1,2)] Cons.IH
    by (simp add: d processDirectory_def idx_files_def image_Un image_UN Un_assoc)
qed (simp add: idx_files_def)

lemma load_files_listed: "load_files io s ps ix = Inr ix' \<Longrightarrow> listed s ps"
  by (induction ps arbitrary: ix)
    (auto simp: listed_def ebind_eq_Inr loadIndexFile_def split: option.splits if_splits)

lemma ExistenceIndex_new_listed: "ExistenceIndex_new io s ds ix = Inr ix' \<Longrightarrow> listed s (idx_files ds)"
proof (induction ds arbitrary: ix)
  case (Cons d ds)
  obtain dir names where d: "d = (dir, names)" by (cases d)
  obtain ix1 where "load_files io s (map (Pair dir) (filter has_idx_extension names)) ix = Inr ix1"
    "ExistenceIndex_new io s ds ix1 = Inr ix'"
    using Cons.prems by (auto simp: d processDirectory_def ebind_eq_Inr)
  then show ?case using load_files_listed Cons.IH by (fastforce simp: d listed_def idx_files_def)
qed (simp add: listed_def idx_files_def)

lemma VFSBackend_new_listed: "VFSBackend_new io s (Some ds) = Inr b \<Longrightarrow> listed s (idx_files ds)"
  by (auto simp: VFSBackend_new_def ebind_eq_Inr dest: ExistenceIndex_new_listed)

lemma stored_listed:
  assumes "disk_ok s" and "IsValidUUID u"
    and "\<And>p. rows s p \<noteq> [] \<Longrightarrow> p \<in> set ps"
  shows "uuid_of u \<in> uuid_of ` (\<Union>p \<in> set ps. row_ids s p) \<longleftrightarrow> stored s u \<noteq> None"
proof
  assume "uuid_of u \<in> uuid_of ` (\<Union>p \<in> set ps. row_ids s p)"
  then obtain v p where v: "v \<in> row_ids s p" "uuid_of u = uuid_of v" by blast
  then obtain k where "(v, k) \<in> row_keys s p" by auto
  from disk_okD(3) [OF assms(1) this] have "IsValidUUID v" by (simp add: key_ok_def)
  then have "u = v" using v(2) uuid_of_inject [OF assms(2)] by blast
  with v(1) show "stored s u \<noteq> None" using disk_okD(4) [OF assms(1)] by blast
next
  assume "stored s u \<noteq> None"
  then obtain b where "db_stored s (getFullPathForUUID u) b u \<noteq> None"
    by (cases "db_stored s (getFullPathForUUID u) ''globals'' u") (auto simp: stored_def)
  then have "lookup_row (rows s (getFullPathForUUID u, b @ ''.idx'')) u \<noteq> None"
    by (cases "lookup_row (rows s (getFullPathForUUID u, b @ ''.idx'')) u") (simp_all add: db_stored_def)
  then have r: "u \<in> row_ids s (getFullPathForUUID u, b @ ''.idx'')"
    by (rule contrapos_np) (rule lookup_row_absent)
  then have "rows s (getFullPathForUUID u, b @ ''.idx'') \<noteq> []" by auto
  then have "(getFullPathForUUID u, b @ ''.idx'') \<in> set ps" by (rule assms(3))
  with r show "uuid_of u \<in> uuid_of ` (\<Union>p \<in> set ps. row_ids s p)" by blast
qed

section \<open>Consistency of index, queue and disk\<close>

text \<open>
  The map the disk will hold once the queue is worked off; a queue all of whose requests will
  succeed; and the states in which the index knows exactly the assets of that map.
\<close>

fun apply_request :: "(string \<Rightarrow> Asset option) \<Rightarrow> 'c AssetRequest \<Rightarrow> string \<Rightarrow> Asset option" where
  "apply_request m (AssetPutRequest a c) = (case Asset_getUUID a of Inr u \<Rightarrow> m(u \<mapsto> a) | Inl e \<Rightarrow> m)"
| "apply_request m _ = m"

definition future :: "(string \<Rightarrow> Asset option) \<Rightarrow> 'c queued list \<Rightarrow> string \<Rightarrow> Asset option" where
  "future m q = foldl (\<lambda>m r. apply_request m (fst r)) m q"

fun request_ok :: "(string \<Rightarrow> Asset option) \<Rightarrow> 'c AssetRequest \<Rightarrow> bool" where
  "request_ok m (AssetGetRequest u c) \<longleftrightarrow> IsValidUUID u \<and> m u \<noteq> None"
| "request_ok m (AssetPutRequest a c) \<longleftrightarrow> (\<exists>u. valid_entry a u \<and> m u = None)"
| "request_ok m (AssetPurgeRequest u l c) \<longleftrightarrow> \<not> l"
| "request_ok m (DeleteLocalStorageRequest p) \<longleftrightarrow> False"
| "request_ok m (CollectStatusRequest j c) \<longleftrightarrow> False"
| "request_ok m (GetStoredAssetIdsRequest p j c) \<longleftrightarrow> True"

fun queue_ok :: "(string \<Rightarrow> Asset option) \<Rightarrow> 'c queued list \<Rightarrow> bool" where
  "queue_ok m [] \<longleftrightarrow> True"
| "queue_ok m (r # rs) \<longleftrightarrow> request_ok m (fst r) \<and> queue_ok (apply_request m (fst r)) rs"

definition quiet :: "'c posted \<Rightarrow> bool" where
  "quiet h \<longleftrightarrow> (case h of PostGet _ _ _ _ \<Rightarrow> True | PostStore _ _ _ \<Rightarrow> True | PostDone _ \<Rightarrow> True | _ \<Rightarrow> False)"

definition consistent :: "'c VFSBackend \<Rightarrow> bool" where
  "consistent b \<longleftrightarrow> disk_ok (be_disk b) \<and> queue_ok (stored (be_disk b)) (be_queue b)
     \<and> (\<forall>u. IsValidUUID u \<longrightarrow> (uuid_of u \<in> be_index b \<longleftrightarrow> future (stored (be_disk b)) (be_queue b) u \<noteq> None))
     \<and> list_all quiet (be_posted b)"

lemma future_simps [simp]:
  "future m [] = m" "future m (r # q) = future (apply_request m (fst r)) q"
  "future m (q @ q') = future (future m q) q'"
  by (simp_all add: future_def)

lemma queue_ok_append [simp]: "queue_ok m (q @ q') \<longleftrightarrow> queue_ok m q \<and> queue_ok (future m q) q'"
  by (induction q arbitrary: m) simp_all

lemma consistentD:
  assumes "consistent b"
  shows "disk_ok (be_disk b)" and "queue_ok (stored (be_disk b)) (be_queue b)"
    and "IsValidUUID u \<Longrightarrow> uuid_of u \<in> be_index b \<longleftrightarrow> future (stored (be_disk b)) (be_queue b) u \<noteq> None"
    and "list_all quiet (be_posted b)"
  using assms unfolding consistent_def by blast+

lemma VFSBackend_new_consistent:
  assumes "disk_ok s" and "io_sql io = (\<lambda>_ _. None)" and "listed s (idx_files ds)"
    and "\<And>p. rows s p \<noteq> [] \<Longrightarrow> p \<in> set (idx_files ds)"
  shows "\<exists>b. VFSBackend_new io s (Some ds) = Inr b \<and> consistent b \<and> \<not> be_stop b \<and> stored (be_disk b) = stored s"
proof -
  let ?s = "s\<lparr>st_open := LRUCache_new MAX_OPEN_FILES\<rparr>"
  have new: "storage_ok ?s" "same_files s ?s"
    using set_open_ok [OF disk_okD(1) [OF assms(1)], of "LRUCache_new MAX_OPEN_FILES"] by (simp_all add: lru_inv_new)
  have "disk_ok ?s" "stored ?s = stored s"
    using disk_ok_same [OF assms(1) new] same_files_stored [OF new(2)] by simp_all
  then show ?thesis
    using ExistenceIndex_new_ok [OF assms(1-3), of "{}"] stored_listed [OF assms(1) _ assms(4)]
    by (simp add: VFSBackend_new_def consistent_def)
qed

text \<open>One lemma per call of the connections.\<close>

lemma be_getAsset_consistent:
  assumes "consistent b" and "IsValidUUID u"
  shows "\<exists>b'. be_getAsset now u c b = (Inr (), b') \<and> consistent b'"
proof -
  note b = consistentD [OF assms(1)]
  show ?thesis
    using assms(2) b(1,2,4) b(3) [of u] b(3)
    by (cases "uuid_of u \<in> be_index b")
      (simp_all add: be_getAsset_def abind_def index_assetExists_def uuid_value_valid post_def enqueue_def
        consistent_def quiet_def)
qed

lemma be_storeAsset_consistent:
  assumes "consistent b" and "valid_entry a u"
  shows "\<exists>b'. be_storeAsset now a c b = (Inr (), b') \<and> consistent b'"
proof -
  note b = consistentD [OF assms(1)]
  have u: "Asset_getUUID a = Inr u" "IsValidUUID u"
    using assms(2) by (simp_all add: valid_entry_def storable_def)
  show ?thesis
  proof (cases "uuid_of u \<in> be_index b")
    case True
    then show ?thesis
      using u b by (simp add: be_storeAsset_def abind_def index_assetExists_def uuid_value_valid post_def
          consistent_def quiet_def)
  next
    case False
    then have "future (stored (be_disk b)) (be_queue b) u = None" using b(3) [OF u(2)] by simp
    moreover have "uuid_of v \<in> insert (uuid_of u) (be_index b) \<longleftrightarrow> v = u \<or> uuid_of v \<in> be_index b"
      if "IsValidUUID v" for v
      using uuid_of_inject [OF that u(2)] by blast
    ultimately show ?thesis
      using False u b assms(2)
      by (auto simp: be_storeAsset_def abind_def index_assetExists_def addNewId_def uuid_value_valid
          enqueue_def consistent_def)
  qed
qed

lemma be_purgeAsset_consistent:
  "consistent b \<Longrightarrow> \<exists>b'. be_purgeAsset now u c b = (Inr (), b') \<and> consistent b'"
  by (simp add: be_purgeAsset_def enqueue_def consistent_def)

lemma run_posted_consistent:
  "consistent b \<Longrightarrow> \<exists>r b'. run_posted now b = (Inr r, b') \<and> consistent b'"
  by (cases "be_posted b")
    (auto simp: run_posted_def consistent_def quiet_def split: posted.splits)

section \<open>The worker\<close>

text \<open>What a request posts when the disk holds the map \<open>m\<close>.\<close>

fun answer :: "(string \<Rightarrow> Asset option) \<Rightarrow> 'c AssetRequest \<Rightarrow> 'c posted list" where
  "answer m (AssetGetRequest u c) = [PostGet c (m u) True None]"
| "answer m (AssetPutRequest a c) = [PostStore c True None]"
| "answer m (GetStoredAssetIdsRequest p j c) = [PostDone c]"
| "answer m _ = []"

fun answers :: "(string \<Rightarrow> Asset option) \<Rightarrow> 'c queued list \<Rightarrow> 'c posted list" where
  "answers m [] = []"
| "answers m (r # q) = answer m (fst r) @ answers (apply_request m (fst r)) q"

lemma quiet_answer: "list_all quiet (answer m r)"
  by (cases "(m, r)" rule: answer.cases) (simp_all add: quiet_def)

lemma processRequest_ok:
  assumes "disk_ok (be_disk b)" and "io_ok io" and "request_ok (stored (be_disk b)) r"
  shows "\<exists>d push js. processRequest io r b
      = (Inr (), b\<lparr>be_disk := d, be_posted := be_posted b @ answer (stored (be_disk b)) r, be_push := push, be_journal := js\<rparr>)
    \<and> disk_ok d \<and> stored d = apply_request (stored (be_disk b)) r \<and> (idx_tables (be_disk b) \<longrightarrow> idx_tables d)"
proof -
  have sql: "io_sql io = (\<lambda>_ _. None)" using assms(2) by (simp add: io_ok_def)
  show ?thesis
  proof (cases r)
    case (AssetGetRequest u c)
    then obtain a where a: "IsValidUUID u" "stored (be_disk b) u = Some a" using assms(3) by auto
    then obtain d where d: "disk_getAsset io u (be_disk b) = (Inr (Some a), d)" "disk_ok d" "stored d = stored (be_disk b)"
      using disk.get_law [OF assms(2,1)] by metis
    have "processRequest io r b = (Inr (), b\<lparr>be_disk := d, be_posted := be_posted b @ answer (stored (be_disk b)) r, be_push := be_push b,
        be_journal := be_journal b\<rparr>)"
      using AssetGetRequest a(2) d(1)
      by (simp add: performDiskRead_def acatch_def abind_def on_disk_def post_def)
    moreover have "stored d = apply_request (stored (be_disk b)) r" using d(3) AssetGetRequest by simp
    moreover have "idx_tables (be_disk b) \<longrightarrow> idx_tables d"
      using changesD [OF disk_idx(1) [OF sql] d(1)] by (simp add: idx_step_def)
    ultimately show ?thesis using d(2) by blast
  next
    case (AssetPutRequest a c)
    then obtain u where u: "valid_entry a u" "stored (be_disk b) u = None" using assms(3) by auto
    then have g: "Asset_getUUID a = Inr u" by (simp add: valid_entry_def storable_def)
    obtain d where d: "disk_storeAsset io a (be_disk b) = (Inr (), d)" "disk_ok d" "stored d = (stored (be_disk b))(u \<mapsto> a)"
      using disk.put_law [OF assms(2,1) u] by blast
    have "processRequest io r b = (Inr (), b\<lparr>be_disk := d, be_posted := be_posted b @ answer (stored (be_disk b)) r, be_push := be_push b @ [a],
        be_journal := be_journal b\<rparr>)"
      using AssetPutRequest d(1)
      by (simp add: performDiskWrite_def acatch_def abind_def on_disk_def post_def)
    moreover have "stored d = apply_request (stored (be_disk b)) r" using d(3) g AssetPutRequest by simp
    moreover have "idx_tables (be_disk b) \<longrightarrow> idx_tables d"
      using disk_idx(2) [OF sql disk_okD(1) [OF assms(1)] g] d(1) by (simp add: idx_step_def)
    ultimately show ?thesis using d(2) by blast
  next
    case (AssetPurgeRequest u l c)
    have "processRequest io r b = (Inr (), b\<lparr>be_disk := be_disk b, be_posted := be_posted b @ answer (stored (be_disk b)) r, be_push := be_push b,
        be_journal := be_journal b\<rparr>)"
      using AssetPurgeRequest assms(3) by (simp add: performDiskPurge_def)
    moreover have "stored (be_disk b) = apply_request (stored (be_disk b)) r" using AssetPurgeRequest by simp
    ultimately show ?thesis using assms(1) by blast
  next
    case (GetStoredAssetIdsRequest pre j c)
    let ?p = "(pre, ''globals.idx'')"
    show ?thesis
    proof (cases "st_idx (be_disk b) ?p")
      case None
      then have "processRequest io r b = (Inr (), b\<lparr>be_disk := be_disk b, be_posted := be_posted b @ answer (stored (be_disk b)) r,
          be_push := be_push b, be_journal := be_journal b\<rparr>)"
        using GetStoredAssetIdsRequest by (simp add: performGetStoredAssetIds_def post_def Let_def)
      then show ?thesis using assms(1) GetStoredAssetIdsRequest by fastforce
    next
      case (Some db)
      obtain d where d: "openIndexFile io ?p (be_disk b) = (Inr ?p, d)" "storage_ok d" "same_files (be_disk b) d"
        using openIndexFile_ok [OF disk_okD(1) [OF assms(1)] bases_in(1), of ?p pre io] Some sql by auto
      let ?js = "(be_journal b)(j := be_journal b j @ concat (map (\<lambda>i. i @ '','') (map asset_id (rows d ?p))))"
      have "processRequest io r b = (Inr (), b\<lparr>be_disk := d, be_posted := be_posted b @ answer (stored (be_disk b)) r,
          be_push := be_push b, be_journal := ?js\<rparr>)"
        using GetStoredAssetIdsRequest Some d(1) sql
        by (simp add: performGetStoredAssetIds_def getContainedAssetIdStrings_def on_disk_def abind_def post_def journal_append_def Let_def)
      moreover have "disk_ok d" "stored d = apply_request (stored (be_disk b)) r"
        using disk_ok_same [OF assms(1) d(2,3)] same_files_stored [OF d(3)] GetStoredAssetIdsRequest by simp_all
      moreover have "idx_tables (be_disk b) \<longrightarrow> idx_tables d"
        using changesD [OF openIndexFile_idx [OF sql, of ?p UNIV] d(1)] by (simp add: idx_step_def)
      ultimately show ?thesis by blast
    qed
  qed (use assms(3) in auto)
qed

lemma workLoop_turn_ok:
  assumes "consistent b" and "io_ok io" and "\<not> be_stop b" and "be_queue b = r # q"
  shows "\<exists>b'. workLoop_turn io t b = (Inr (), b') \<and> consistent b' \<and> be_queue b' = q \<and> \<not> be_stop b'
    \<and> be_index b' = be_index b
    \<and> stored (be_disk b') = apply_request (stored (be_disk b)) (fst r)
    \<and> be_posted b' = be_posted b @ answer (stored (be_disk b)) (fst r)
    \<and> (idx_tables (be_disk b) \<longrightarrow> idx_tables (be_disk b'))"
proof -
  note b = consistentD [OF assms(1)]
  let ?m = "stored (be_disk b)"
  have ok: "request_ok ?m (fst r)" "queue_ok (apply_request ?m (fst r)) q"
    using b(2) assms(4) by simp_all
  let ?b = "b\<lparr>be_queue := q, be_latency := addSample (queueDuration (fst t) r) (be_latency b)\<rparr>"
  obtain d push js where p: "processRequest io (fst r) ?b
      = (Inr (), ?b\<lparr>be_disk := d, be_posted := be_posted b @ answer ?m (fst r), be_push := push, be_journal := js\<rparr>)"
    "disk_ok d" "stored d = apply_request ?m (fst r)" "idx_tables (be_disk b) \<longrightarrow> idx_tables d"
    using processRequest_ok [of ?b io "fst r"] b(1) assms(2) ok(1) by auto
  let ?b' = "?b\<lparr>be_disk := d, be_posted := be_posted b @ answer ?m (fst r), be_push := push, be_journal := js,
    be_op := addSample (to_int ((snd (snd t) - fst (snd t)) div 1000)) (be_op b)\<rparr>"
  have "workLoop_turn io t b = (Inr (), ?b')"
    using assms(3,4) p(1) by (simp add: workLoop_turn_def acatch_def abind_def)
  moreover have "consistent ?b'"
    unfolding consistent_def using p(2,3) ok(2) b(3,4) assms(4) quiet_answer by simp
  ultimately show ?thesis using assms(3) p(3,4) by simp
qed

fun work_turns :: "Io \<Rightarrow> (int \<times> int \<times> int) list \<Rightarrow> ('c VFSBackend, unit) action" where
  "work_turns io [] = areturn ()"
| "work_turns io (t # ts) = abind (workLoop_turn io t) (\<lambda>_. work_turns io ts)"

lemma work_turns_ok:
  assumes "consistent b" and "io_ok io" and "\<not> be_stop b" and "length ts = length (be_queue b)"
  shows "\<exists>b'. work_turns io ts b = (Inr (), b') \<and> consistent b' \<and> be_queue b' = []
    \<and> be_index b' = be_index b
    \<and> stored (be_disk b') = future (stored (be_disk b)) (be_queue b)
    \<and> be_posted b' = be_posted b @ answers (stored (be_disk b)) (be_queue b)"
  using assms
proof (induction ts arbitrary: b)
  case (Cons t ts)
  then obtain r q where q: "be_queue b = r # q" by (cases "be_queue b") auto
  from workLoop_turn_ok [OF Cons.prems(1-3) q, of t] obtain b1 where
    b1: "workLoop_turn io t b = (Inr (), b1)" "consistent b1" "be_queue b1 = q" "\<not> be_stop b1"
      "be_index b1 = be_index b" "stored (be_disk b1) = apply_request (stored (be_disk b)) (fst r)"
      "be_posted b1 = be_posted b @ answer (stored (be_disk b)) (fst r)" by blast
  have "length ts = length (be_queue b1)" using Cons.prems(4) q b1(3) by simp
  from Cons.IH [OF b1(2) Cons.prems(2) b1(4) this] show ?case
    using b1 q by (auto simp: abind_def)
qed auto

section \<open>Reachable states\<close>

datatype 'c be_event =
    EvGet int string 'c
  | EvStore int Asset 'c
  | EvPurge int string 'c
  | EvStoredIds int string journal 'c
  | EvShutdown
  | EvWork Io "int \<times> int \<times> int"
  | EvPosted int

fun be_do :: "'c be_event \<Rightarrow> 'c VFSBackend \<Rightarrow> exn option \<times> 'c VFSBackend" where
  "be_do (EvGet now u c) b = (case be_getAsset now u c b of (Inl e, b') \<Rightarrow> (Some e, b') | (Inr _, b') \<Rightarrow> (None, b'))"
| "be_do (EvStore now a c) b = (case be_storeAsset now a c b of (Inl e, b') \<Rightarrow> (Some e, b') | (Inr _, b') \<Rightarrow> (None, b'))"
| "be_do (EvPurge now u c) b = (case be_purgeAsset now u c b of (Inl e, b') \<Rightarrow> (Some e, b') | (Inr _, b') \<Rightarrow> (None, b'))"
| "be_do (EvStoredIds now p j c) b
     = (case getStoredAssetIDsWithPrefix now p j c b of (Inl e, b') \<Rightarrow> (Some e, b') | (Inr _, b') \<Rightarrow> (None, b'))"
| "be_do EvShutdown b = (case be_shutdown b of (Inl e, b') \<Rightarrow> (Some e, b') | (Inr _, b') \<Rightarrow> (None, b'))"
| "be_do (EvWork io t) b = (case workLoop_turn io t b of (Inl e, b') \<Rightarrow> (Some e, b') | (Inr _, b') \<Rightarrow> (None, b'))"
| "be_do (EvPosted now) b = (case run_posted now b of (Inl e, b') \<Rightarrow> (Some e, b') | (Inr _, b') \<Rightarrow> (None, b'))"

fun event_ok :: "'c be_event \<Rightarrow> bool" where
  "event_ok (EvGet now u c) \<longleftrightarrow> IsValidUUID u"
| "event_ok (EvStore now a c) \<longleftrightarrow> (\<exists>u. valid_entry a u)"
| "event_ok (EvWork io t) \<longleftrightarrow> io_ok io"
| "event_ok _ \<longleftrightarrow> True"

text \<open>
  The states reached from \<open>b\<close> by gets and stores with valid ids, purges of single assets, listings
  of stored ids, shutdown, turns of the worker without faults and posted handlers, in any order.
  Two calls are left out.  A purge of the local assets of all directories does not keep the index
  exact (\<open>purge_race\<close> below), and a status request adds up to fifty \<open>int\<close> samples, which is only
  defined while the sum fits.
\<close>

inductive be_reach :: "'c VFSBackend \<Rightarrow> 'c VFSBackend \<Rightarrow> bool" for b where
  be_init: "be_reach b b"
| be_step: "be_reach b b1 \<Longrightarrow> event_ok e \<Longrightarrow> be_do e b1 = (r, b2) \<Longrightarrow> be_reach b b2"

lemma workLoop_turn_idle:
  "be_queue b = [] \<or> be_stop b \<Longrightarrow> workLoop_turn io t b = (Inr (), b)"
  by (auto simp: workLoop_turn_def split: list.split)

lemma manager_shutdown_ok:
  assumes "disk_ok s"
  shows "disk_ok (manager_shutdown s)" and "stored (manager_shutdown s) = stored s"
proof -
  have "lru_inv (\<lambda>_. 1) (\<lambda>_. True) (lru_clear (st_open s))" "bindings (lru_clear (st_open s)) = []"
    by (simp_all add: lru_inv_def lru_clear_def bindings_def total_def)
  then have m: "storage_ok (manager_shutdown s)" "same_files s (manager_shutdown s)"
    using set_open_ok [OF disk_okD(1) [OF assms], of "lru_clear (st_open s)"] by (simp_all add: manager_shutdown_def)
  then show "disk_ok (manager_shutdown s)" "stored (manager_shutdown s) = stored s"
    using disk_ok_same [OF assms m] same_files_stored [OF m(2)] by simp_all
qed

lemma be_do_consistent:
  assumes "consistent b" and "event_ok e"
  shows "\<exists>b'. be_do e b = (None, b') \<and> consistent b'"
proof (cases e)
  case (EvGet now u c)
  then show ?thesis using be_getAsset_consistent [OF assms(1), of u now c] assms(2) by auto
next
  case (EvStore now a c)
  then obtain u where "valid_entry a u" using assms(2) by auto
  then show ?thesis using EvStore be_storeAsset_consistent [OF assms(1), of a u now c] by auto
next
  case (EvPurge now u c)
  then show ?thesis using be_purgeAsset_consistent [OF assms(1), of now u c] by auto
next
  case (EvStoredIds now p j c)
  then show ?thesis using assms(1) by (simp add: getStoredAssetIDsWithPrefix_def enqueue_def consistent_def)
next
  case EvShutdown
  have "disk_ok (manager_shutdown (be_disk b))" "stored (manager_shutdown (be_disk b)) = stored (be_disk b)"
    using manager_shutdown_ok [OF consistentD(1) [OF assms(1)]] by simp_all
  then show ?thesis using EvShutdown assms(1) by (simp add: be_shutdown_def consistent_def)
next
  case (EvWork io t)
  show ?thesis
  proof (cases "be_queue b = [] \<or> be_stop b")
    case True
    then show ?thesis using EvWork assms(1) workLoop_turn_idle [OF True] by simp
  next
    case False
    then obtain r q where "be_queue b = r # q" by (cases "be_queue b") auto
    then obtain b' where "workLoop_turn io t b = (Inr (), b')" "consistent b'"
      using workLoop_turn_ok [OF assms(1) _ _ , of io r q t] False assms(2) EvWork by auto
    then show ?thesis using EvWork by simp
  qed
next
  case (EvPosted now)
  then show ?thesis using run_posted_consistent [OF assms(1), of now] by auto
qed

lemma be_reach_consistent: "be_reach b b' \<Longrightarrow> consistent b \<Longrightarrow> consistent b'"
  by (induction rule: be_reach.induct) (use be_do_consistent in fastforce)+

text \<open>Only the worker touches the disk, and it leaves no index file without its tables.\<close>

lemma calls_keep_disk:
  "be_disk (snd (be_getAsset now u c b)) = be_disk b" "be_disk (snd (be_storeAsset now a c b)) = be_disk b"
  "be_disk (snd (run_posted now b)) = be_disk b"
  by (auto simp: be_getAsset_def be_storeAsset_def run_posted_def unindexLocals_def assetWriteFailed_def ioLoopFailed_def
      abind_def post_def enqueue_def split: sum.splits list.splits posted.splits option.splits)

lemma outcome_snd: "snd (case m of (Inl e, b') \<Rightarrow> (Some e, b') | (Inr _, b') \<Rightarrow> (None, b')) = snd m"
  by (simp split: prod.split sum.split)

lemma be_do_tables:
  assumes "consistent b" and "event_ok e" and "idx_tables (be_disk b)"
  shows "idx_tables (be_disk (snd (be_do e b)))"
proof (cases e)
  case (EvWork io t)
  show ?thesis
  proof (cases "be_queue b = [] \<or> be_stop b")
    case True
    then show ?thesis using EvWork assms(3) workLoop_turn_idle [OF True] by simp
  next
    case False
    then obtain r q where "be_queue b = r # q" by (cases "be_queue b") auto
    then obtain b' where "workLoop_turn io t b = (Inr (), b')" "idx_tables (be_disk b')"
      using workLoop_turn_ok [OF assms(1), of io r q t] False assms(2,3) EvWork by auto
    then show ?thesis using EvWork by simp
  qed
qed (use assms(3) in \<open>simp_all add: outcome_snd calls_keep_disk be_purgeAsset_def getStoredAssetIDsWithPrefix_def
    be_shutdown_def manager_shutdown_def enqueue_def idx_tables_def\<close>)

lemma be_reach_tables: "be_reach b b' \<Longrightarrow> consistent b \<Longrightarrow> idx_tables (be_disk b) \<Longrightarrow> idx_tables (be_disk b')"
proof (induction rule: be_reach.induct)
  case (be_step b1 e r b2)
  from be_do_tables [OF be_reach_consistent [OF be_step(1,5)] be_step(2)] be_step show ?case by simp
qed

section \<open>Purging the local assets of all directories\<close>

lemma show_hex_digits:
  "i < 16 ^ 3 \<Longrightarrow> setw 3 (show_hex i)
     = [hexdigits ! (i div 256), hexdigits ! (i div 16 mod 16), hexdigits ! (i mod 16)]"
proof -
  assume i: "i < 16 ^ 3"
  have zero: "hexdigits ! 0 = CHR ''0''" by (simp add: hexdigits_def)
  consider "i < 16" | "16 \<le> i" "i < 256" | "256 \<le> i" by linarith
  then show ?thesis
  proof cases
    case 1
    then show ?thesis by (simp add: show_hex.simps [of i] setw_def zero numeral_3_eq_3)
  next
    case 2
    then have "i div 16 < 16" "i div 256 = 0" by auto
    with 2 show ?thesis
      by (simp add: show_hex.simps [of i] show_hex.simps [of "i div 16"] setw_def zero)
  next
    case 3
    then have "i div 16 div 16 < 16" "i div 16 \<ge> 16" "i div 16 div 16 = i div 256" using i by auto
    with 3 show ?thesis
      by (simp add: show_hex.simps [of i] show_hex.simps [of "i div 16"] show_hex.simps [of "i div 256"] setw_def)
  qed
qed

lemma prefix_is_hex:
  assumes "IsValidUUID u"
  shows "\<exists>i < 16 ^ 3. getFullPathForUUID u = setw UUID_PATH_CHARS (show_hex i)"
proof -
  have u: "length u = 32" "\<And>c. c \<in> set u \<Longrightarrow> is_hex c" using assms by (auto simp: IsValidUUID_iff)
  have t: "take 3 u = [u ! 0, u ! 1, u ! 2]"
    using u(1) by (simp add: numeral_3_eq_3 numeral_2_eq_2 take_Suc_conv_app_nth)
  have "is_hex (u ! k)" if "k < 3" for k using u that by (auto intro: nth_mem)
  then obtain a b c where abc: "a < 16" "u ! 0 = hexdigits ! a" "b < 16" "u ! 1 = hexdigits ! b"
    "c < 16" "u ! 2 = hexdigits ! c"
    using is_hex_obtain by (metis One_nat_def lessI numeral_2_eq_2 numeral_3_eq_3 less_SucI zero_less_Suc)
  let ?i = "a * 256 + b * 16 + c"
  have "?i div 16 = a * 16 + b" using abc(5) by simp
  moreover have "?i mod 16 = c"
    using abc(5) mod_mult_self2 [of c 16 "a * 16 + b"] by (simp add: algebra_simps)
  moreover have "(a * 16 + b) mod 16 = b" "(a * 16 + b) div 16 = a" using abc(3) by auto
  moreover have "?i div 256 = ?i div 16 div 16" by (simp add: div_mult2_eq [symmetric])
  moreover have "?i < 16 ^ 3" using abc(1,3,5) by simp
  ultimately show ?thesis
    using show_hex_digits [of ?i] t abc
    by (intro exI [of _ ?i]) (simp add: getFullPathForUUID_def UUID_PATH_CHARS_def)
qed

text \<open>The timer expires at the given times, as long as a handler waits for it.\<close>

fun timer_turns :: "int list \<Rightarrow> ('c VFSBackend, unit) action" where
  "timer_turns [] = areturn ()"
| "timer_turns (t # ts) = abind (aget be_timer) (\<lambda>armed.
     if armed then abind (onPurgeTimer t False) (\<lambda>_. timer_turns ts) else areturn ())"

lemma onPurgeTimer_run:
  "be_purge_index b = int n \<Longrightarrow> onPurgeTimer t False b =
     (Inr (), b\<lparr>be_purge_index := int (Suc n), be_timer := (n < 0xFFF),
        be_purging := (if n < 0xFFF then be_purging b else False),
        be_queue := be_queue b @ [(AssetPurgeRequest (setw UUID_PATH_CHARS (show_hex n)) True None, t)]\<rparr>)"
  by (auto simp: onPurgeTimer_def enqueue_def)

lemma timer_turns_idle: "\<not> be_timer b \<Longrightarrow> timer_turns ts b = (Inr (), b)"
  by (cases ts) simp_all

lemma timer_turns_run:
  assumes "be_purge_index b = int n" and "n < 0x1000" and "0x1000 \<le> n + length ts" and "be_timer b"
  shows "\<exists>b'. timer_turns ts b = (Inr (), b') \<and> \<not> be_timer b' \<and> \<not> be_purging b'
    \<and> map fst (be_queue b') = map fst (be_queue b)
        @ map (\<lambda>i. AssetPurgeRequest (setw UUID_PATH_CHARS (show_hex i)) True None) [n..<0x1000]"
  using assms
proof (induction ts arbitrary: b n)
  case (Cons t ts)
  let ?r = "\<lambda>i. AssetPurgeRequest (setw UUID_PATH_CHARS (show_hex i)) True None"
  let ?b = "b\<lparr>be_purge_index := int (Suc n), be_timer := (n < 0xFFF),
      be_purging := (if n < 0xFFF then be_purging b else False), be_queue := be_queue b @ [(?r n, t)]\<rparr>"
  have step: "timer_turns (t # ts) b = timer_turns ts ?b"
    using Cons.prems(4) onPurgeTimer_run [OF Cons.prems(1), of t] by (simp add: abind_def)
  have upt: "[n..<0x1000] = n # [Suc n..<0x1000]" using Cons.prems(2) by (rule upt_conv_Cons)
  show ?case
  proof (cases "n < 0xFFF")
    case True
    then have "\<exists>b'. timer_turns ts ?b = (Inr (), b') \<and> \<not> be_timer b' \<and> \<not> be_purging b'
        \<and> map fst (be_queue b') = map fst (be_queue ?b) @ map ?r [Suc n..<0x1000]"
      using Cons.prems(3) by (intro Cons.IH) simp_all
    then show ?thesis unfolding step upt by simp
  next
    case False
    then have "[Suc n..<0x1000] = []" by simp
    then show ?thesis using timer_turns_idle [of ?b ts] False unfolding step upt by simp
  qed
qed simp

text \<open>
  C11: A purge of the local assets visits every directory and ends.  If the timer expires 4096 times
  while a handler waits for it - further expiries have no effect - the purge is over and no timer is
  armed; one request was queued for each of the 4096 directories in order, and these are the
  directories of all ids.
\<close>

theorem purge_visits_all:
  assumes "\<not> be_purging b" and "0x1000 \<le> length ts"
  shows "\<exists>b' b''. beginPurgeLocals b = (Inr (), b') \<and> be_timer b' \<and> timer_turns ts b' = (Inr (), b'')
    \<and> \<not> be_purging b'' \<and> \<not> be_timer b''
    \<and> map fst (be_queue b'') = map fst (be_queue b)
        @ map (\<lambda>i. AssetPurgeRequest (setw UUID_PATH_CHARS (show_hex i)) True None) [0..<0x1000]
    \<and> (\<forall>u. IsValidUUID u \<longrightarrow> AssetPurgeRequest (getFullPathForUUID u) True None \<in> fst ` set (be_queue b''))"
proof -
  let ?b = "b\<lparr>be_purging := True, be_purge_index := 0, be_timer := True\<rparr>"
  let ?req = "\<lambda>i. AssetPurgeRequest (setw UUID_PATH_CHARS (show_hex i)) True None"
  have b: "beginPurgeLocals b = (Inr (), ?b)" using assms(1) by (simp add: beginPurgeLocals_def)
  obtain b'' where b'': "timer_turns ts ?b = (Inr (), b'')" "\<not> be_timer b''" "\<not> be_purging b''"
    and q: "map fst (be_queue b'') = map fst (be_queue b) @ map ?req [0..<0x1000]"
    using timer_turns_run [of ?b 0 ts] assms(2) by auto
  have "?req i \<in> fst ` set (be_queue b'')" if "i < 0x1000" for i
    using that arg_cong [OF q, of set] by (auto simp del: upt_rec_numeral)
  then have "\<forall>u. IsValidUUID u \<longrightarrow> AssetPurgeRequest (getFullPathForUUID u) True None \<in> fst ` set (be_queue b'')"
    using prefix_is_hex by fastforce
  with b b'' q show ?thesis by auto
qed

definition sample_backend :: "nat VFSBackend" where
  "sample_backend = \<lparr>be_disk = Storage_new ''data'', be_index = {}, be_queue = [], be_posted = [],
     be_stop = False, be_purging = False, be_purge_index = 0, be_timer = False,
     be_latency = MovingAverage_new DISK_LATENCY_SAMPLE_SIZE,
     be_op = MovingAverage_new DISK_LATENCY_SAMPLE_SIZE, be_push = [], be_journal = (\<lambda>_. [])\<rparr>"

lemma sample_backend_sel [simp]:
  "be_disk sample_backend = Storage_new ''data''" "be_index sample_backend = {}" "be_queue sample_backend = []"
  "be_posted sample_backend = []" "\<not> be_stop sample_backend" "\<not> be_purging sample_backend"
  by (simp_all add: sample_backend_def)

lemma sample_backend_new: "VFSBackend_new io_plain (Storage_new ''data'') (Some []) = Inr sample_backend"
  by (simp add: VFSBackend_new_def sample_backend_def Storage_new_def)

lemma sample_valid: "IsValidUUID (replicate 32 CHR ''a'')"
  by (simp add: IsValidUUID_iff is_hex_def hexdigits_def)

lemma sample_entry: "valid_entry sample_asset (replicate 32 CHR ''a'')"
  using sample_storable(1) sample_valid by (simp add: valid_entry_def)

theorem purge_visits_all_witness:
  "\<exists>b'' :: nat VFSBackend. timer_turns (replicate 0x1000 0) (snd (beginPurgeLocals sample_backend)) = (Inr (), b'')
    \<and> AssetPurgeRequest ''aaa'' True None \<in> fst ` set (be_queue b'')"
proof -
  have p: "getFullPathForUUID (replicate 32 CHR ''a'') = ''aaa''"
    by (simp add: getFullPathForUUID_def UUID_PATH_CHARS_def numeral_3_eq_3)
  show ?thesis
    using purge_visits_all [of sample_backend "replicate 0x1000 0"] sample_valid p
    by (metis length_replicate order_refl sample_backend_sel(6) snd_conv)
qed

section \<open>The promises of the backend\<close>

definition started :: "Storage \<Rightarrow> 'c VFSBackend \<Rightarrow> bool" where
  "started s b \<longleftrightarrow> disk_ok s \<and> (\<exists>io ds. io_sql io = (\<lambda>_ _. None)
     \<and> (\<forall>p. rows s p \<noteq> [] \<longrightarrow> p \<in> set (idx_files ds)) \<and> VFSBackend_new io s (Some ds) = Inr b)"

lemma started_consistent:
  fixes b :: "'c VFSBackend"
  assumes "started s b"
  shows "consistent b \<and> \<not> be_stop b \<and> stored (be_disk b) = stored s"
proof -
  obtain io ds where s: "disk_ok s" "io_sql io = (\<lambda>_ _. None)"
    "\<And>p. rows s p \<noteq> [] \<Longrightarrow> p \<in> set (idx_files ds)" and b: "VFSBackend_new io s (Some ds) = Inr b"
    using assms unfolding started_def by blast
  from VFSBackend_new_consistent [OF s(1,2) VFSBackend_new_listed [OF b] s(3)] obtain b' :: "'c VFSBackend" where
    "VFSBackend_new io s (Some ds) = Inr b'" "consistent b' \<and> \<not> be_stop b' \<and> stored (be_disk b') = stored s" by blast
  with b show ?thesis by simp
qed

lemma started_sample: "started (Storage_new ''data'') sample_backend"
  unfolding started_def
  by (intro conjI exI [of _ io_plain] exI [of _ "[]"])
    (simp_all add: disk_ok_new sample_backend_new listed_def idx_files_def io_plain_def [THEN arg_cong, of io_sql])

lemma answers_get:
  "queue_ok m q \<Longrightarrow> (AssetGetRequest u c, t) \<in> set q \<Longrightarrow> \<exists>a. PostGet c (Some a) True None \<in> set (answers m q)"
proof (induction m q rule: queue_ok.induct)
  case (2 m r rs)
  then show ?case by (cases r) (fastforce split: sum.splits)+
qed simp

lemma answers_put:
  "(AssetPutRequest a c, t) \<in> set q \<Longrightarrow> PostStore c True None \<in> set (answers m q)"
  by (induction m q rule: queue_ok.induct) auto

text \<open>
  C7: Take a state that a backend reaches from its start by gets and stores with valid ids, purges of
  single assets, listings of stored ids, turns of its worker without faults and posted handlers in
  any order - there was no purge of the local assets and no status request - and in which the worker
  has not been told to stop.  As many turns without faults as there are requests empty the queue:
  each get was answered with an asset and each put with success, in the order of the queue.
\<close>

theorem worker_serves:
  assumes "started s b0" and "be_reach b0 b" and "\<not> be_stop b" and "io_ok io" and "length ts = length (be_queue b)"
  shows "\<exists>b'. work_turns io ts b = (Inr (), b') \<and> be_queue b' = []
    \<and> be_posted b' = be_posted b @ answers (stored (be_disk b)) (be_queue b)
    \<and> (\<forall>u c t. (AssetGetRequest u c, t) \<in> set (be_queue b) \<longrightarrow> (\<exists>a. PostGet c (Some a) True None \<in> set (be_posted b')))
    \<and> (\<forall>a c t. (AssetPutRequest a c, t) \<in> set (be_queue b) \<longrightarrow> PostStore c True None \<in> set (be_posted b'))"
proof -
  have c: "consistent b" using be_reach_consistent [OF assms(2)] started_consistent [OF assms(1)] by blast
  from work_turns_ok [OF c assms(4,3,5)] obtain b' where b': "work_turns io ts b = (Inr (), b')" "be_queue b' = []"
    "be_posted b' = be_posted b @ answers (stored (be_disk b)) (be_queue b)" by blast
  then show ?thesis
    using answers_get [OF consistentD(2) [OF c]] answers_put by fastforce
qed

lemma sample_put:
  "be_storeAsset 0 sample_asset 7 sample_backend = (Inr (), sample_backend\<lparr>be_index := {uuid_of (replicate 32 CHR ''a'')},
      be_queue := [(AssetPutRequest sample_asset 7, 0)]\<rparr>)"
  "be_reach sample_backend (snd (be_storeAsset 0 sample_asset 7 sample_backend))"
  "Asset_getUUID sample_asset = Inr (replicate 32 CHR ''a'')"
proof -
  show u: "Asset_getUUID sample_asset = Inr (replicate 32 CHR ''a'')"
    using sample_storable(1) by (simp add: storable_def)
  then show b: "be_storeAsset 0 sample_asset 7 sample_backend = (Inr (), sample_backend\<lparr>be_index := {uuid_of (replicate 32 CHR ''a'')},
      be_queue := [(AssetPutRequest sample_asset 7, 0)]\<rparr>)"
    using sample_valid
    by (simp add: be_storeAsset_def abind_def index_assetExists_def addNewId_def uuid_value_valid enqueue_def)
  show "be_reach sample_backend (snd (be_storeAsset 0 sample_asset 7 sample_backend))"
    using sample_entry b by (intro be_step [OF be_init, of "EvStore 0 sample_asset 7"]) auto
qed

theorem worker_serves_witness:
  "\<exists>b'. work_turns io_plain [(0, 0, 0)] (snd (be_storeAsset 0 sample_asset 7 sample_backend)) = (Inr (), b')
    \<and> PostStore 7 True None \<in> set (be_posted b')"
  using worker_serves [OF started_sample sample_put(2) _ io_ok_plain, of "[(0, 0, 0)]"] by (simp add: sample_put(1)) blast

text \<open>
  C8: In every state that a backend reaches from its start by gets and stores with valid ids, purges
  of single assets, listings of stored ids, shutdown, turns of its worker without faults and posted
  handlers, the existence index knows exactly the assets the disk will hold once the queue is worked
  off.
\<close>

theorem index_exact:
  assumes "started s b0" and "be_reach b0 b" and "IsValidUUID u"
  shows "be_assetExists u b = Inr (future (stored (be_disk b)) (be_queue b) u \<noteq> None)"
proof -
  have "consistent b" using be_reach_consistent [OF assms(2)] started_consistent [OF assms(1)] by blast
  from consistentD(3) [OF this assms(3)] show ?thesis
    using assms(3) by (simp add: be_assetExists_def index_assetExists_def uuid_value_valid)
qed

theorem index_exact_witness:
  "be_assetExists (replicate 32 CHR ''a'') (snd (be_storeAsset 0 sample_asset 7 sample_backend)) = Inr True
    \<and> stored (be_disk (snd (be_storeAsset 0 sample_asset 7 sample_backend))) (replicate 32 CHR ''a'') = None"
  using index_exact [OF started_sample sample_put(2) sample_valid] sample_put(1) sample_put(3) by simp

text \<open>
  C9: Take a state that a backend reaches from its start by gets and stores with valid ids, purges of
  single assets, listings of stored ids, turns of its worker without faults and posted handlers, in
  which the worker has not been told to stop and a valid id is not known.  A client that stores an
  asset with this id and at once asks for it is answered with success and with the asset: both
  requests are queued behind the gets, puts, purges of single assets and listings that are queued
  there, and as many turns without faults as there are requests answer them all.  A purge of the
  local assets must not have been started before.
\<close>

theorem store_then_get_served:
  assumes "started s b0" and "be_reach b0 b" and "\<not> be_stop b" and "io_ok io" and "valid_entry a u"
    and "be_assetExists u b = Inr False" and "length ts = length (be_queue b) + 2"
  shows "\<exists>b1 b2 b'. be_storeAsset now a c1 b = (Inr (), b1) \<and> be_getAsset now u c2 b1 = (Inr (), b2)
    \<and> work_turns io ts b2 = (Inr (), b') \<and> stored (be_disk b') u = Some a
    \<and> (\<exists>xs. be_posted b' = xs @ [PostStore c1 True None, PostGet c2 (Some a) True None])"
proof -
  have c: "consistent b" using be_reach_consistent [OF assms(2)] started_consistent [OF assms(1)] by blast
  have u: "Asset_getUUID a = Inr u" "IsValidUUID u" using assms(5) by (simp_all add: valid_entry_def storable_def)
  then have new: "uuid_of u \<notin> be_index b"
    using assms(6) by (simp add: be_assetExists_def index_assetExists_def uuid_value_valid)
  let ?b1 = "b\<lparr>be_index := insert (uuid_of u) (be_index b), be_queue := be_queue b @ [(AssetPutRequest a c1, now)]\<rparr>"
  let ?b2 = "?b1\<lparr>be_queue := be_queue b @ [(AssetPutRequest a c1, now), (AssetGetRequest u c2, now)]\<rparr>"
  have 1: "be_storeAsset now a c1 b = (Inr (), ?b1)"
    using new u by (simp add: be_storeAsset_def abind_def index_assetExists_def addNewId_def uuid_value_valid enqueue_def)
  have 2: "be_getAsset now u c2 ?b1 = (Inr (), ?b2)"
    using u by (simp add: be_getAsset_def abind_def index_assetExists_def uuid_value_valid enqueue_def)
  have "consistent ?b1" using be_storeAsset_consistent [OF c assms(5), of now c1] 1 by auto
  then have "consistent ?b2" using be_getAsset_consistent [of ?b1 u now c2] 2 u(2) by auto
  from work_turns_ok [OF this assms(4), of ts] obtain b' where
    b': "work_turns io ts ?b2 = (Inr (), b')" "stored (be_disk b') = future (stored (be_disk b)) (be_queue ?b2)"
      "be_posted b' = be_posted b @ answers (stored (be_disk b)) (be_queue ?b2)"
    using assms(3,7) by auto
  have "answers m (q @ q') = answers m q @ answers (future m q) q'" for m and q q' :: "'a queued list"
    by (induction q arbitrary: m) simp_all
  then show ?thesis using 1 2 b' u(1) by simp
qed

theorem store_then_get_served_witness:
  "\<exists>b1 b2 b'. be_storeAsset 0 sample_asset 1 sample_backend = (Inr (), b1)
    \<and> be_getAsset 0 (replicate 32 CHR ''a'') 2 b1 = (Inr (), b2)
    \<and> work_turns io_plain [(0, 0, 0), (0, 0, 0)] b2 = (Inr (), b')
    \<and> stored (be_disk b') (replicate 32 CHR ''a'') = Some sample_asset"
proof -
  have "be_assetExists (replicate 32 CHR ''a'') sample_backend = Inr False"
    using sample_valid by (simp add: be_assetExists_def index_assetExists_def uuid_value_valid)
  from store_then_get_served [OF started_sample be_init _ io_ok_plain sample_entry this,
      of "[(0, 0, 0), (0, 0, 0)]" 0 1 2] show ?thesis by auto
qed

text \<open>
  What the directory iterators of a start find: the index files of the disk and no others.
\<close>

definition listing :: "Storage \<Rightarrow> (string \<times> string list) list \<Rightarrow> bool" where
  "listing s ds \<longleftrightarrow> (\<forall>p. p \<in> set (idx_files ds) \<longleftrightarrow> st_idx s p \<noteq> None)"

lemma listing_rows: "listing s ds \<Longrightarrow> rows s p \<noteq> [] \<Longrightarrow> p \<in> set (idx_files ds)"
  unfolding listing_def rows_def by (cases p, cases "st_idx s p") simp_all

lemma listing_tables: "listing s ds \<Longrightarrow> listed s (idx_files ds) \<longleftrightarrow> idx_tables s"
  unfolding listing_def listed_def idx_tables_def by (metis option.distinct(1) option.exhaust option.inject)

text \<open>
  C10: A backend that was started on a well formed disk can be started again.  On the disk of any
  state reached by gets and stores with valid ids, purges of single assets, listings of stored ids,
  shutdown, turns of the worker without faults and posted handlers, a new start finds every index
  file usable and succeeds; its disk holds the same assets and its index knows exactly these.
  Both starts go over the index files of their disk, and no SQL statement of theirs fails.
\<close>

theorem restart_keeps:
  fixes b :: "'c VFSBackend"
  assumes "disk_ok s" and "listing s ds0" and "io_sql io0 = (\<lambda>_ _. None)" and "VFSBackend_new io0 s (Some ds0) = Inr b0"
    and "be_reach b0 b" and "listing (be_disk b) ds" and "io_sql io = (\<lambda>_ _. None)" and "IsValidUUID u"
  shows "\<exists>b1 :: 'c VFSBackend. VFSBackend_new io (be_disk b) (Some ds) = Inr b1 \<and> stored (be_disk b1) = stored (be_disk b)
    \<and> be_assetExists u b1 = Inr (stored (be_disk b) u \<noteq> None)"
proof -
  have "started s b0" using assms(1,3,4) listing_rows [OF assms(2)] unfolding started_def by blast
  then have c0: "consistent b0" using started_consistent by blast
  have d: "disk_ok (be_disk b)" using be_reach_consistent [OF assms(5) c0] consistentD(1) by blast
  have "idx_tables s" using VFSBackend_new_listed [OF assms(4)] listing_tables [OF assms(2)] by simp
  moreover have "st_idx (be_disk b0) = st_idx s" using assms(4) by (auto simp: VFSBackend_new_def)
  ultimately have "idx_tables (be_disk b)" using be_reach_tables [OF assms(5) c0] by (simp add: idx_tables_def)
  then have l: "listed (be_disk b) (idx_files ds)" using listing_tables [OF assms(6)] by simp
  from VFSBackend_new_consistent [OF d assms(7) l listing_rows [OF assms(6)]] obtain b1 :: "'c VFSBackend" where
    b1: "VFSBackend_new io (be_disk b) (Some ds) = Inr b1" "consistent b1" "stored (be_disk b1) = stored (be_disk b)" by blast
  have "be_queue b1 = []" using b1(1) by (auto simp: VFSBackend_new_def)
  with consistentD(3) [OF b1(2) assms(8)] b1 show ?thesis
    using assms(8) by (simp add: be_assetExists_def index_assetExists_def uuid_value_valid)
qed

lemma sample_listing:
  assumes "idx_step {(dir, f), (dir, g)} (Storage_new root) s" and "has_idx_extension f" and "has_idx_extension g"
  shows "listing s [(dir, filter (\<lambda>n. st_idx s (dir, n) \<noteq> None) [f, g])]"
proof -
  have "st_idx s p \<noteq> None \<Longrightarrow> p = (dir, f) \<or> p = (dir, g)" for p
    using assms(1) by (cases p) (auto simp: idx_step_def Storage_new_def)
  moreover have "set (idx_files [(dir, filter (\<lambda>n. st_idx s (dir, n) \<noteq> None) [f, g])])
      = {p \<in> {(dir, f), (dir, g)}. st_idx s p \<noteq> None}"
    using assms(2,3) by (auto simp: idx_files_def)
  ultimately show ?thesis unfolding listing_def by blast
qed

theorem restart_keeps_witness:
  "\<exists>b ds. be_reach sample_backend b \<and> stored (be_disk b) (replicate 32 CHR ''a'') = Some sample_asset
    \<and> (\<exists>b1 :: nat VFSBackend. VFSBackend_new io_plain (be_disk b) (Some ds) = Inr b1
         \<and> stored (be_disk b1) (replicate 32 CHR ''a'') = Some sample_asset
         \<and> be_assetExists (replicate 32 CHR ''a'') b1 = Inr True)"
proof -
  let ?u = "replicate 32 CHR ''a''" and ?b = "snd (be_storeAsset 0 sample_asset 7 sample_backend)"
  have sql: "io_sql io_plain = (\<lambda>_ _. None)" by (simp add: io_plain_def)
  have c: "consistent ?b" using be_reach_consistent [OF sample_put(2)] started_consistent [OF started_sample] by blast
  obtain b where b: "workLoop_turn io_plain (0, 0, 0) ?b = (Inr (), b)" "stored (be_disk b) ?u = Some sample_asset"
    using workLoop_turn_ok [OF c io_ok_plain, of "(AssetPutRequest sample_asset 7, 0)" "[]" "(0, 0, 0)"] sample_put(3)
    by (auto simp: sample_put(1))
  have r: "be_reach sample_backend b"
    by (rule be_step [OF sample_put(2), of "EvWork io_plain (0, 0, 0)"]) (simp_all add: io_ok_plain b(1))
  obtain s where s: "disk_storeAsset io_plain sample_asset (Storage_new ''data'') = (Inr (), s)"
    using sample_kept [OF sample_storable(1)] by blast
  then have "be_disk b = s"
    using b(1) by (auto simp: sample_put(1) workLoop_turn_def acatch_def abind_def performDiskWrite_def on_disk_def post_def)
  moreover have "getFullPathForUUID ?u = ''aaa''" by (simp add: getFullPathForUUID_def UUID_PATH_CHARS_def numeral_3_eq_3)
  ultimately have "idx_step {(''aaa'', ''globals.idx''), (''aaa'', ''locals.idx'')} (Storage_new ''data'') (be_disk b)"
    using disk_idx(2) [OF sql storage_ok_new sample_put(3), of "''data''"] s by (simp add: dir_indexes_def)
  from sample_listing [OF this] obtain ds where l: "listing (be_disk b) ds" by (auto simp: has_idx_extension_def)
  have "listing (Storage_new ''data'') []" by (simp add: listing_def idx_files_def Storage_new_def)
  from restart_keeps [OF disk_ok_new this sql sample_backend_new r l sql sample_valid]
  obtain b1 :: "nat VFSBackend" where "VFSBackend_new io_plain (be_disk b) (Some ds) = Inr b1"
    "stored (be_disk b1) = stored (be_disk b)" "be_assetExists ?u b1 = Inr (stored (be_disk b) ?u \<noteq> None)" by blast
  with b(2) r show ?thesis by (intro exI [of _ b] exI [of _ ds]) simp
qed

text \<open>
  C12: When a write fails with a storage error the client is told so, but the id stays in the
  existence index: no asset is stored under it and every later attempt to store it is refused.
\<close>

theorem failed_write_blocks_id:
  assumes "storage_ok (be_disk b)" and "Asset_getUUID a = Inr u" and "IsValidUUID u"
    and "disk_storeAsset io a (be_disk b) = (Inl (AssetStorageError m cr), d)"
    and "be_queue b = []" and "\<not> be_stop b" and "be_assetExists u b = Inr False"
  shows "\<exists>b1 b2. be_storeAsset now a c b = (Inr (), b1) \<and> workLoop_turn io t b1 = (Inr (), b2)
    \<and> be_posted b2 = be_posted b @ [PostStore c False (Some (AssetStorageError m cr))]
    \<and> stored (be_disk b2) = stored (be_disk b)
    \<and> be_assetExists u b2 = Inr True
    \<and> (\<forall>now' c'. be_storeAsset now' a c' b2 = (Inr (), b2\<lparr>be_posted := be_posted b2 @
         [PostStore c' False (Some (AssetStorageError (''Unable to store asset '' @ u @ '', asset already exists'') False))]\<rparr>))"
proof -
  have new: "uuid_of u \<notin> be_index b"
    using assms(3,7) by (simp add: be_assetExists_def index_assetExists_def uuid_value_valid)
  have st: "stored d = stored (be_disk b)"
    using disk_storeAsset_run [OF assms(1,2), of io] assms(4) by (auto simp: isl_def)
  let ?b1 = "b\<lparr>be_index := insert (uuid_of u) (be_index b), be_queue := [(AssetPutRequest a c, now)]\<rparr>"
  have 1: "be_storeAsset now a c b = (Inr (), ?b1)"
    using new assms(2,3,5)
    by (simp add: be_storeAsset_def abind_def index_assetExists_def addNewId_def uuid_value_valid enqueue_def)
  define l where "l = addSample (queueDuration (fst t) (AssetPutRequest a c, now)) (be_latency b)"
  define op where "op = addSample (to_int ((snd (snd t) - fst (snd t)) div 1000)) (be_op b)"
  have 2: "workLoop_turn io t ?b1 = (Inr (), ?b1\<lparr>be_queue := [], be_latency := l, be_op := op, be_disk := d,
      be_posted := be_posted b @ [PostStore c False (Some (AssetStorageError m cr))]\<rparr>)"
    using assms(4,6)
    by (simp add: workLoop_turn_def acatch_def abind_def performDiskWrite_def on_disk_def post_def l_def op_def)
  show ?thesis
    using 1 2 st assms(2,3)
    by (simp add: be_assetExists_def index_assetExists_def uuid_value_valid be_storeAsset_def abind_def post_def)
qed

theorem failed_write_blocks_id_witness:
  "\<exists>b1 b2. be_storeAsset 0 sample_asset 1 sample_backend = (Inr (), b1)
    \<and> workLoop_turn (io_plain\<lparr>io_open := False\<rparr>) (0, 0, 0) b1 = (Inr (), b2)
    \<and> stored (be_disk b2) (replicate 32 CHR ''a'') = None
    \<and> be_assetExists (replicate 32 CHR ''a'') b2 = Inr True"
proof -
  have u: "Asset_getUUID sample_asset = Inr (replicate 32 CHR ''a'')"
    using sample_storable(1) by (simp add: storable_def)
  obtain m d where f: "disk_storeAsset (io_plain\<lparr>io_open := False\<rparr>) sample_asset (be_disk sample_backend)
      = (Inl (AssetStorageError m True), d)"
    using store_open_fails [OF storage_ok_new io_ok_plain sample_storable(1), of "''data''"] by auto
  have n: "be_assetExists (replicate 32 CHR ''a'') sample_backend = Inr False"
    using sample_valid by (simp add: be_assetExists_def index_assetExists_def uuid_value_valid)
  show ?thesis
    using failed_write_blocks_id [OF _ u sample_valid f _ _ n, of 0 1 "(0, 0, 0)"] storage_ok_new by fastforce
qed

text \<open>
  C13: A local asset whose put is worked off between the two halves of a purge of its directory is
  acknowledged and deleted: its put has answered success, nothing is stored under its id, and the
  existence index still reports it.
\<close>

theorem purge_race:
  fixes b :: "'c VFSBackend"
  assumes "disk_ok (be_disk b)" and "io_ok io" and "valid_entry a u" and "isLocal a = Inr True"
    and "be_queue b = [(AssetPurgeRequest (getFullPathForUUID u) True None, t0)]" and "be_posted b = []"
    and "\<not> be_stop b" and "be_assetExists u b = Inr False" and "stored (be_disk b) u = None"
    and "st_idx (be_disk b) (getFullPathForUUID u, ''locals.idx'') = None"
  shows "\<exists>b1 b2 b3 b4 b5. be_storeAsset now a c b = (Inr (), b1) \<and> work_turns io [t1, t2] b1 = (Inr (), b2)
    \<and> run_posted now b2 = (Inr None, b3) \<and> run_posted now b3 = (Inr (Some (PostStore c True None)), b4)
    \<and> workLoop_turn io t3 b4 = (Inr (), b5)
    \<and> stored (be_disk b5) u = None \<and> be_assetExists u b5 = Inr True"
proof -
  let ?h = "getFullPathForUUID u"
  have u: "Asset_getUUID a = Inr u" "IsValidUUID u" using assms(3) by (simp_all add: valid_entry_def storable_def)
  have new: "uuid_of u \<notin> be_index b"
    using u(2) assms(8) by (simp add: be_assetExists_def index_assetExists_def uuid_value_valid)
  let ?ix = "insert (uuid_of u) (be_index b)"
  let ?b1 = "b\<lparr>be_index := ?ix, be_queue := [(AssetPurgeRequest ?h True None, t0), (AssetPutRequest a c, now)]\<rparr>"
  have 1: "be_storeAsset now a c b = (Inr (), ?b1)"
    using new u assms(5)
    by (simp add: be_storeAsset_def abind_def index_assetExists_def addNewId_def uuid_value_valid enqueue_def)
  obtain d where d: "disk_storeAsset io a (be_disk b) = (Inr (), d)" "disk_ok d"
    using disk.put_law [OF assms(2,1,3,9)] by blast
  have g: "db_stored d ?h ''globals'' u = None"
    using disk_storeAsset_run [OF disk_okD(1) [OF assms(1)] u(1), of io] d(1) assms(4,9)
    by (auto simp: stored_def split: option.splits)
  let ?op = "\<lambda>t m. addSample (to_int ((snd (snd t) - fst (snd t)) div 1000)) m"
  define l where "l = addSample (queueDuration (fst t2) (AssetPutRequest a c, now))
    (addSample (queueDuration (fst t1) (AssetPurgeRequest ?h True (None :: 'c option), t0)) (be_latency b))"
  define op where "op = ?op t2 (?op t1 (be_op b))"
  define push where "push = be_push b @ [a]"
  have 2: "work_turns io [t1, t2] ?b1 = (Inr (), ?b1\<lparr>be_queue := [], be_latency := l, be_disk := d,
      be_posted := [PostUnindexLocals None ?h, PostStore c True None], be_push := push, be_op := op\<rparr>)"
    using assms(6,7,10) d(1)
    by (simp add: abind_def workLoop_turn_def acatch_def performDiskPurgeLocals_def performDiskWrite_def
        on_disk_def post_def Let_def l_def op_def push_def)
  let ?b2 = "?b1\<lparr>be_queue := [], be_latency := l, be_disk := d,
      be_posted := [PostUnindexLocals None ?h, PostStore c True None], be_push := push, be_op := op\<rparr>"
  let ?b3 = "?b2\<lparr>be_queue := [(DeleteLocalStorageRequest ?h, now)], be_posted := [PostStore c True None]\<rparr>"
  have 3: "run_posted now ?b2 = (Inr None, ?b3)"
    by (simp add: run_posted_def unindexLocals_def abind_def enqueue_def)
  let ?b4 = "?b3\<lparr>be_posted := []\<rparr>"
  have 4: "run_posted now ?b3 = (Inr (Some (PostStore c True None)), ?b4)"
    by (simp add: run_posted_def)
  obtain r d' where d': "performLocalsPhysicalDeletion io ?h d = (r, d')" "\<not> isl r"
    "stored d' u = db_stored d ?h ''globals'' u"
    using performLocalsPhysicalDeletion_run [OF disk_okD(1) [OF d(2)], of io ?h] assms(2)
    by (auto simp: io_ok_def)
  then have r: "r = Inr ()" by (cases r) auto
  define l' where "l' = addSample (queueDuration (fst t3) (DeleteLocalStorageRequest ?h :: 'c AssetRequest, now)) l"
  define op' where "op' = ?op t3 op"
  let ?b5 = "?b4\<lparr>be_queue := [], be_latency := l', be_disk := d', be_op := op'\<rparr>"
  have "workLoop_turn io t3 ?b4 = (Inr (), ?b5)"
    using assms(7) d'(1) r by (simp add: workLoop_turn_def acatch_def abind_def on_disk_def l'_def op'_def)
  moreover have "stored (be_disk ?b5) u = None" using d'(3) g by simp
  moreover have "be_assetExists u ?b5 = Inr True"
    using u(2) by (simp add: be_assetExists_def index_assetExists_def uuid_value_valid)
  ultimately show ?thesis using 1 2 3 4 by blast
qed

lemma sample_local_entry: "valid_entry sample_local (replicate 32 CHR ''a'')" "isLocal sample_local = Inr True"
  using sample_valid sample_local_storable by (simp_all add: valid_entry_def)

theorem purge_race_witness:
  "\<exists>b1 b2 b3 b4 b5. be_storeAsset 0 sample_local 1
      (sample_backend\<lparr>be_queue := [(AssetPurgeRequest (getFullPathForUUID (replicate 32 CHR ''a'')) True None, 0)]\<rparr>) = (Inr (), b1)
    \<and> work_turns io_plain [(0, 0, 0), (0, 0, 0)] b1 = (Inr (), b2)
    \<and> run_posted 0 b2 = (Inr None, b3) \<and> run_posted 0 b3 = (Inr (Some (PostStore 1 True None)), b4)
    \<and> workLoop_turn io_plain (0, 0, 0) b4 = (Inr (), b5)
    \<and> stored (be_disk b5) (replicate 32 CHR ''a'') = None \<and> be_assetExists (replicate 32 CHR ''a'') b5 = Inr True"
proof -
  let ?b = "sample_backend\<lparr>be_queue := [(AssetPurgeRequest (getFullPathForUUID (replicate 32 CHR ''a'')) True None, 0)]\<rparr>"
  have "be_assetExists (replicate 32 CHR ''a'') ?b = Inr False"
    using sample_valid by (simp add: be_assetExists_def index_assetExists_def uuid_value_valid)
  moreover have "st_idx (be_disk ?b) p = None" for p by (simp add: Storage_new_def)
  moreover have "disk_ok (be_disk ?b)" by (simp add: disk_ok_new)
  ultimately show ?thesis
    using purge_race [of ?b io_plain sample_local "replicate 32 CHR ''a''" 0 0 1 "(0, 0, 0)" "(0, 0, 0)" "(0, 0, 0)"]
      io_ok_plain sample_local_entry by simp
qed

end
