(* ===== verification/Cache.thy ===== *)
theory Cache
  imports Backend Complex_Main
begin

text \<open>
  The cache between the connections and the disk (\<open>AssetCache\<close>), an LRU cache of assets over the
  asynchronous backend.  Each call it passes on carries a callback of its own that fills the cache
  before the caller's callback runs.  The hit rate it reports is computed in single precision, so
  the rounding of \<open>float\<close> is defined first.
\<close>

section \<open>Single precision\<close>

definition pow2 :: "int \<Rightarrow> rat" where
  "pow2 e = (if 0 \<le> e then 2 ^ nat e else 1 / 2 ^ nat (- e))"

definition binary_exponent :: "rat \<Rightarrow> int" where
  "binary_exponent x =
     (case filter (\<lambda>e. pow2 e \<le> x \<and> x < pow2 (e + 1)) [-149..127] of e # _ \<Rightarrow> e | [] \<Rightarrow> - 149)"

definition round_even :: "rat \<Rightarrow> int" where
  "round_even x =
     (let f = \<lfloor>x\<rfloor>; d = x - of_int f
      in if d < 1 / 2 \<or> d = 1 / 2 \<and> even f then f else f + 1)"

text \<open>The nearest number with 24 significant bits, ties to the even one.\<close>

definition float32 :: "rat \<Rightarrow> rat" where
  "float32 x =
     (if x = 0 then 0
      else let q = max (binary_exponent \<bar>x\<bar> - 23) (- 149)
           in of_int (round_even (x / pow2 q)) * pow2 q)"

section \<open>The cache\<close>

definition SF_NONE :: u32 where "SF_NONE = 0"
definition SF_DONTCACHE :: u32 where "SF_DONTCACHE = push_bit 0 1"

text \<open>The callbacks the cache gives to the backend, with the caller's inside.\<close>

datatype 'd cache_callback =
    GetCompleted u32 'd
  | PutCompleted Asset 'd
  | Callback 'd

record 'd AssetCache =
  ac_max :: u64
  ac_storage :: "'d cache_callback VFSBackend"
  ac_cache :: "(string, Asset) LRUCache"
  ac_hits :: u64
  ac_misses :: u64

definition AssetCache_new :: "u64 \<Rightarrow> 'd cache_callback VFSBackend \<Rightarrow> 'd AssetCache" where
  "AssetCache_new maxCacheSize persistentStorage =
     \<lparr>ac_max = maxCacheSize, ac_storage = persistentStorage, ac_cache = LRUCache_new maxCacheSize,
      ac_hits = 0, ac_misses = 0\<rparr>"

definition on_storage :: "('d cache_callback VFSBackend, 'a) action \<Rightarrow> ('d AssetCache, 'a) action" where
  "on_storage m c = (case m (ac_storage c) of (r, b) \<Rightarrow> (r, c\<lparr>ac_storage := b\<rparr>))"

definition cache_insert :: "Asset \<Rightarrow> ('d AssetCache, unit) action" where
  "cache_insert asset c =
     (case ebind (Asset_getUUID asset) (\<lambda>u. lru_insert AssetSizeCalculator (ac_cache c) u asset) of
        Inl e \<Rightarrow> (Inl e, c)
      | Inr l \<Rightarrow> (Inr (), c\<lparr>ac_cache := l\<rparr>))"

definition cache_fetch :: "string \<Rightarrow> ('d AssetCache, Asset option) action" where
  "cache_fetch uuid c =
     (case fetch (ac_cache c) uuid True of
        Inl e \<Rightarrow> (Inl e, c)
      | Inr (l, a) \<Rightarrow> (Inr a, c\<lparr>ac_cache := l\<rparr>))"

definition inform :: "Asset option \<Rightarrow> ('d AssetCache, unit) action" where
  "inform asset = (case asset of Some a \<Rightarrow> cache_insert a | None \<Rightarrow> areturn ())"

definition ac_getAsset_flags :: "int \<Rightarrow> string \<Rightarrow> u32 \<Rightarrow> 'd \<Rightarrow> ('d AssetCache, unit) action" where
  "ac_getAsset_flags now uuid flags callBack =
     abind (cache_fetch uuid) (\<lambda>asset.
     case asset of
       Some a \<Rightarrow>
         abind (on_storage (post (PostGet (Callback callBack) (Some a) True None))) (\<lambda>_.
         amodify (\<lambda>c. c\<lparr>ac_hits := ac_hits c + 1\<rparr>))
     | None \<Rightarrow>
         abind (on_storage (be_getAsset now uuid (GetCompleted flags callBack))) (\<lambda>_.
         amodify (\<lambda>c. c\<lparr>ac_misses := ac_misses c + 1\<rparr>)))"

definition ac_getAsset :: "int \<Rightarrow> string \<Rightarrow> 'd \<Rightarrow> ('d AssetCache, unit) action" where
  "ac_getAsset now uuid callBack =
     abind (cache_fetch uuid) (\<lambda>asset.
     case asset of
       Some a \<Rightarrow>
         abind (on_storage (post (PostGet (Callback callBack) (Some a) True None))) (\<lambda>_.
         amodify (\<lambda>c. c\<lparr>ac_hits := ac_hits c + 1\<rparr>))
     | None \<Rightarrow>
         abind (on_storage (be_getAsset now uuid (GetCompleted SF_NONE callBack))) (\<lambda>_.
         amodify (\<lambda>c. c\<lparr>ac_misses := ac_misses c + 1\<rparr>)))"

text \<open>A completion gives back the call of the caller's callback that ends it.\<close>

definition asyncGetCompleted ::
    "Asset option \<Rightarrow> bool \<Rightarrow> exn option \<Rightarrow> u32 \<Rightarrow> 'd \<Rightarrow> ('d AssetCache, 'd posted option) action" where
  "asyncGetCompleted asset success error flags callBack =
     abind (case asset of
              Some a \<Rightarrow> if success \<and> flags AND SF_DONTCACHE = 0 then cache_insert a else areturn ()
            | None \<Rightarrow> areturn ()) (\<lambda>_.
     areturn (Some (PostGet callBack asset success error)))"

definition ac_storeAsset :: "int \<Rightarrow> Asset \<Rightarrow> 'd \<Rightarrow> ('d AssetCache, unit) action" where
  "ac_storeAsset now asset callBack = on_storage (be_storeAsset now asset (PutCompleted asset callBack))"

definition asyncPutCompleted ::
    "Asset \<Rightarrow> bool \<Rightarrow> exn option \<Rightarrow> 'd \<Rightarrow> ('d AssetCache, 'd posted option) action" where
  "asyncPutCompleted asset success error callBack =
     abind (if success then cache_insert asset else areturn ()) (\<lambda>_.
     areturn (Some (PostStore callBack success error)))"

definition ac_purgeAsset :: "string \<Rightarrow> 'd \<Rightarrow> ('d AssetCache, unit) action" where
  "ac_purgeAsset uuid callBack = areturn ()"

definition ac_assetExists :: "string \<Rightarrow> 'd AssetCache \<Rightarrow> bool result" where
  "ac_assetExists uuid c =
     (if lru_exists (ac_cache c) uuid then Inr True else be_assetExists uuid (ac_storage c))"

definition ac_beginPurgeLocals :: "('d AssetCache, unit) action" where
  "ac_beginPurgeLocals = on_storage beginPurgeLocals"

text \<open>
  \<open>(float) misses / total * 100.0f\<close>, truncated to an unsigned integer.
\<close>

definition cacheMissPercentage :: "u64 \<Rightarrow> u64 \<Rightarrow> u64" where
  "cacheMissPercentage misses requests =
     word_of_int \<lfloor>float32 (float32 (float32 (of_int (uint misses)) / float32 (of_int (uint requests))) * 100)\<rfloor>"

definition ac_getStatus :: "int \<Rightarrow> journal \<Rightarrow> 'd \<Rightarrow> ('d AssetCache, unit) action" where
  "ac_getStatus now j completedCallback =
     (let line = (\<lambda>t. on_storage (journal_append j (t @ [CHR 0x0A]))) in
      abind (aget id) (\<lambda>c.
      abind (line ''-Asset Cache'') (\<lambda>_.
      abind (line (''  Cache max size (MB): '' @ show_nat (unat (ac_max c) div 1000000))) (\<lambda>_.
      abind (line (''  Cache item count: '' @ show_nat (lru_length (ac_cache c)))) (\<lambda>_.
      abind (line (''  Cache hits/miss: '' @ show_nat (unat (ac_hits c)) @ ''/'' @ show_nat (unat (ac_misses c)))) (\<lambda>_.
      abind (let totalRequests = ac_hits c + ac_misses c in
             if totalRequests > 0
             then line (''  Cache hit%: '' @ show_nat (unat (100 - cacheMissPercentage (ac_misses c) totalRequests)))
             else areturn ()) (\<lambda>_.
      on_storage (be_getStatus now j (Callback completedCallback))))))))) "

definition ac_getStoredAssetIDsWithPrefix :: "int \<Rightarrow> string \<Rightarrow> journal \<Rightarrow> 'd \<Rightarrow> ('d AssetCache, unit) action" where
  "ac_getStoredAssetIDsWithPrefix now prefix j completedCallback =
     on_storage (getStoredAssetIDsWithPrefix now prefix j (Callback completedCallback))"

definition ac_shutdown :: "('d AssetCache, unit) action" where
  "ac_shutdown = on_storage be_shutdown"

text \<open>The next posted handler, through to the callback of the caller.\<close>

fun complete :: "'d cache_callback posted \<Rightarrow> ('d AssetCache, 'd posted option) action" where
  "complete (PostGet (GetCompleted flags d) asset success error) = asyncGetCompleted asset success error flags d"
| "complete (PostGet (Callback d) asset success error) = areturn (Some (PostGet d asset success error))"
| "complete (PostStore (PutCompleted a d) success error) = asyncPutCompleted a success error d"
| "complete (PostStore (Callback d) success error) = areturn (Some (PostStore d success error))"
| "complete (PostDone (Callback d)) = areturn (Some (PostDone d))"
| "complete _ = areturn None"

definition ac_run_posted :: "int \<Rightarrow> ('d AssetCache, 'd posted option) action" where
  "ac_run_posted now =
     abind (on_storage (run_posted now)) (\<lambda>h. case h of None \<Rightarrow> areturn None | Some h \<Rightarrow> complete h)"

section \<open>Coherence\<close>

text \<open>
  Assets are kept under their own id, and every asset the cache or a posted answer holds is the one
  on the disk.
\<close>

definition holds :: "(string \<Rightarrow> Asset option) \<Rightarrow> Asset \<Rightarrow> bool" where
  "holds m a \<longleftrightarrow> (\<exists>u. Asset_getUUID a = Inr u \<and> m u = Some a) \<and> asset_fits a"

definition named :: "(string \<Rightarrow> Asset option) \<Rightarrow> bool" where
  "named m \<longleftrightarrow> (\<forall>u a. m u = Some a \<longrightarrow> Asset_getUUID a = Inr u \<and> asset_fits a)"

text \<open>\<open>asked d\<close> is the id that the caller of the callback \<open>d\<close> asked for.\<close>

fun caller :: "'d cache_callback \<Rightarrow> 'd" where
  "caller (GetCompleted f d) = d"
| "caller (PutCompleted a d) = d"
| "caller (Callback d) = d"

fun posted_ok :: "('d \<Rightarrow> string) \<Rightarrow> (string \<Rightarrow> Asset option) \<Rightarrow> 'd cache_callback posted \<Rightarrow> bool" where
  "posted_ok asked m (PostGet c a ok e) \<longleftrightarrow> (\<forall>x. a = Some x \<longrightarrow> m (asked (caller c)) = Some x)"
| "posted_ok asked m (PostStore (PutCompleted a d) ok e) \<longleftrightarrow> (ok \<longrightarrow> holds m a)"
| "posted_ok asked m _ \<longleftrightarrow> True"

fun request_named :: "('d \<Rightarrow> string) \<Rightarrow> 'd cache_callback AssetRequest \<Rightarrow> bool" where
  "request_named asked (AssetGetRequest u c) \<longleftrightarrow> asked (caller c) = u"
| "request_named asked (AssetPutRequest a c) \<longleftrightarrow> (\<exists>d. c = PutCompleted a d)"
| "request_named asked _ \<longleftrightarrow> True"

definition cache_ok :: "('d \<Rightarrow> string) \<Rightarrow> 'd AssetCache \<Rightarrow> bool" where
  "cache_ok asked c \<longleftrightarrow> consistent (ac_storage c) \<and> lru_inv asset_weight asset_fits (ac_cache c)
     \<and> named (stored (be_disk (ac_storage c)))
     \<and> (\<forall>x \<in> set (bindings (ac_cache c)). stored (be_disk (ac_storage c)) (fst x) = Some (snd x))
     \<and> list_all (posted_ok asked (stored (be_disk (ac_storage c)))) (be_posted (ac_storage c))
     \<and> list_all (\<lambda>r. request_named asked (fst r)) (be_queue (ac_storage c))"

lemma cache_okD:
  assumes "cache_ok asked c"
  shows "consistent (ac_storage c)" and "lru_inv asset_weight asset_fits (ac_cache c)"
    and "named (stored (be_disk (ac_storage c)))"
    and "x \<in> set (bindings (ac_cache c)) \<Longrightarrow> stored (be_disk (ac_storage c)) (fst x) = Some (snd x)"
    and "list_all (posted_ok asked (stored (be_disk (ac_storage c)))) (be_posted (ac_storage c))"
    and "list_all (\<lambda>r. request_named asked (fst r)) (be_queue (ac_storage c))"
  using assms unfolding cache_ok_def by blast+

lemma holds_named: "named m \<Longrightarrow> m u = Some a \<Longrightarrow> holds m a"
  by (auto simp: named_def holds_def)

lemma cache_fetch_ok:
  assumes "cache_ok asked c"
  shows "\<exists>l. cache_fetch u c = (Inr (map_of (bindings (ac_cache c)) u), c\<lparr>ac_cache := l\<rparr>)
    \<and> cache_ok asked (c\<lparr>ac_cache := l\<rparr>)"
proof -
  note c = cache_okD [OF assms]
  obtain l where l: "fetch (ac_cache c) u True = Inr (l, map_of (bindings (ac_cache c)) u)"
    "lru_inv asset_weight asset_fits l" "bindings l = promote u (bindings (ac_cache c))"
    using asset_size.fetch_sim(1) [OF c(2), of u True] by auto
  have "stored (be_disk (ac_storage c)) (fst x) = Some (snd x)" if "x \<in> set (bindings l)" for x
    using c(4) [of x] that l(3) set_promote [of u "bindings (ac_cache c)"] by auto
  then show ?thesis
    using l(1,2) c(1,3,5,6) by (intro exI [of _ l]) (simp add: cache_fetch_def cache_ok_def)
qed

lemma cache_insert_ok:
  assumes "cache_ok asked c" and "holds (stored (be_disk (ac_storage c))) a"
  shows "\<exists>l. cache_insert a c = (Inr (), c\<lparr>ac_cache := l\<rparr>) \<and> cache_ok asked (c\<lparr>ac_cache := l\<rparr>)"
proof -
  note c = cache_okD [OF assms(1)]
  obtain u where u: "Asset_getUUID a = Inr u" "stored (be_disk (ac_storage c)) u = Some a" "asset_fits a"
    using assms(2) by (auto simp: holds_def)
  obtain l where l: "lru_insert AssetSizeCalculator (ac_cache c) u a = Inr l"
    "lru_inv asset_weight asset_fits l"
    "bindings l = trim asset_weight (lru_max_size (ac_cache c)) ((u, a) # without u (bindings (ac_cache c)))"
    using asset_size.insert_sim [OF c(2) u(3), where k = u] by blast
  have "stored (be_disk (ac_storage c)) (fst x) = Some (snd x)" if x: "x \<in> set (bindings l)" for x
  proof -
    have "x = (u, a) \<or> x \<in> set (bindings (ac_cache c))"
      using subsetD [OF set_trim x [unfolded l(3)]] by (auto simp: without_def)
    then show ?thesis using c(4) [of x] u(2) by auto
  qed
  then show ?thesis
    using l(1,2) u(1) c(1,3,5,6) by (intro exI [of _ l]) (simp add: cache_insert_def cache_ok_def)
qed

text \<open>What the disk holds only grows, so what was right stays right.\<close>

lemma apply_request_grows:
  "request_ok m r \<Longrightarrow> m u = Some a \<Longrightarrow> apply_request m r u = Some a"
  by (cases "(m, r)" rule: apply_request.cases) (auto simp: valid_entry_def storable_def)

lemma holds_grows: "request_ok m r \<Longrightarrow> holds m a \<Longrightarrow> holds (apply_request m r) a"
  using apply_request_grows by (fastforce simp: holds_def)

lemma posted_ok_grows: "request_ok m r \<Longrightarrow> posted_ok asked m h \<Longrightarrow> posted_ok asked (apply_request m r) h"
  by (cases "(asked, m, h)" rule: posted_ok.cases) (auto intro: holds_grows apply_request_grows)

lemma named_grows: "request_ok m r \<Longrightarrow> named m \<Longrightarrow> named (apply_request m r)"
  by (cases "(m, r)" rule: apply_request.cases)
    (auto simp: named_def valid_entry_def storable_def asset_fits_def split: if_splits)

lemma answer_ok:
  assumes "named m" and "request_ok m r" and "request_named asked r"
  shows "list_all (posted_ok asked (apply_request m r)) (answer m r)"
proof (cases "(m, r)" rule: answer.cases)
  case (2 m' a c)
  then obtain u d where "valid_entry a u" "c = PutCompleted a d" using assms(2,3) by auto
  with 2 show ?thesis by (auto simp: holds_def valid_entry_def storable_def asset_fits_def)
qed (use assms in auto)

section \<open>Steps of the cache\<close>

datatype 'd cache_event =
    CacheGet int string u32 'd
  | CacheStore int Asset 'd
  | CacheWork Io "int \<times> int \<times> int"
  | CachePosted int

fun cache_do :: "'d cache_event \<Rightarrow> 'd AssetCache \<Rightarrow> 'd posted option result \<times> 'd AssetCache" where
  "cache_do (CacheGet now u f d) c = abind (ac_getAsset_flags now u f d) (\<lambda>_. areturn None) c"
| "cache_do (CacheStore now a d) c = abind (ac_storeAsset now a d) (\<lambda>_. areturn None) c"
| "cache_do (CacheWork io t) c = abind (on_storage (workLoop_turn io t)) (\<lambda>_. areturn None) c"
| "cache_do (CachePosted now) c = ac_run_posted now c"

fun cache_event_ok :: "('d \<Rightarrow> string) \<Rightarrow> 'd cache_event \<Rightarrow> bool" where
  "cache_event_ok asked (CacheGet now u f d) \<longleftrightarrow> IsValidUUID u \<and> asked d = u"
| "cache_event_ok asked (CacheStore now a d) \<longleftrightarrow> (\<exists>u. valid_entry a u)"
| "cache_event_ok asked (CacheWork io t) \<longleftrightarrow> io_ok io"
| "cache_event_ok asked (CachePosted now) \<longleftrightarrow> True"

inductive cache_reach :: "('d \<Rightarrow> string) \<Rightarrow> 'd AssetCache \<Rightarrow> 'd AssetCache \<Rightarrow> bool" for asked c where
  cache_init: "cache_reach asked c c"
| cache_step: "cache_reach asked c c1 \<Longrightarrow> cache_event_ok asked e \<Longrightarrow> cache_do e c1 = (r, c2) \<Longrightarrow> cache_reach asked c c2"

lemma be_getAsset_changes:
  assumes "be_getAsset now u k b = (Inr (), b')" and "asked (caller k) = u"
  shows "be_disk b' = be_disk b \<and> (\<exists>hs qs. be_posted b' = be_posted b @ hs \<and> be_queue b' = be_queue b @ qs
    \<and> list_all (posted_ok asked m) hs \<and> list_all (\<lambda>r. request_named asked (fst r)) qs)"
  using assms
  by (auto simp: be_getAsset_def abind_def post_def enqueue_def split: sum.splits if_splits)

lemma be_storeAsset_changes:
  assumes "be_storeAsset now a (PutCompleted a d) b = (Inr (), b')"
  shows "be_disk b' = be_disk b \<and> (\<exists>hs qs. be_posted b' = be_posted b @ hs \<and> be_queue b' = be_queue b @ qs
    \<and> list_all (posted_ok asked m) hs \<and> list_all (\<lambda>r. request_named asked (fst r)) qs)"
  using assms
  by (auto simp: be_storeAsset_def abind_def post_def enqueue_def split: sum.splits if_splits)

lemma storage_step_ok:
  assumes "cache_ok asked c" and "consistent b" and "be_disk b = be_disk (ac_storage c)"
    and "be_posted b = be_posted (ac_storage c) @ hs \<and> be_queue b = be_queue (ac_storage c) @ qs
      \<and> list_all (posted_ok asked (stored (be_disk (ac_storage c)))) hs \<and> list_all (\<lambda>r. request_named asked (fst r)) qs"
    and "ac_storage c' = b" and "ac_cache c' = ac_cache c"
  shows "cache_ok asked c'"
  using assms cache_okD [OF assms(1)] by (auto simp: cache_ok_def)

lemma ac_getAsset_flags_ok:
  assumes "cache_ok asked c" and "IsValidUUID u" and "asked d = u"
  shows "\<exists>c'. ac_getAsset_flags now u f d c = (Inr (), c') \<and> cache_ok asked c'"
proof -
  obtain l where l: "cache_fetch u c = (Inr (map_of (bindings (ac_cache c)) u), c\<lparr>ac_cache := l\<rparr>)"
    "cache_ok asked (c\<lparr>ac_cache := l\<rparr>)" using cache_fetch_ok [OF assms(1)] by blast
  show ?thesis
  proof (cases "map_of (bindings (ac_cache c)) u")
    case (Some a)
    let ?h = "PostGet (Callback d) (Some a) True None"
    let ?b = "(ac_storage c)\<lparr>be_posted := be_posted (ac_storage c) @ [?h]\<rparr>"
    have run: "ac_getAsset_flags now u f d c = (Inr (), c\<lparr>ac_cache := l, ac_storage := ?b, ac_hits := ac_hits c + 1\<rparr>)"
      using Some l(1) by (simp add: ac_getAsset_flags_def abind_def on_storage_def post_def)
    have "stored (be_disk (ac_storage c)) u = Some a"
      using cache_okD(4) [OF assms(1), of "(u, a)"] Some by (auto dest: map_of_SomeD)
    moreover have "consistent ?b" using cache_okD(1) [OF l(2)] by (simp add: consistent_def quiet_def)
    ultimately show ?thesis
      using run assms(3) storage_step_ok [OF l(2), of ?b "[?h]" "[]"] by auto
  next
    case None
    obtain b where b: "be_getAsset now u (GetCompleted f d) (ac_storage c) = (Inr (), b)" "consistent b"
      using be_getAsset_consistent [OF cache_okD(1) [OF assms(1)] assms(2)] by blast
    have run: "ac_getAsset_flags now u f d c = (Inr (), c\<lparr>ac_cache := l, ac_storage := b, ac_misses := ac_misses c + 1\<rparr>)"
      using None l(1) b(1) by (simp add: ac_getAsset_flags_def abind_def on_storage_def)
    show ?thesis
      using be_getAsset_changes [OF b(1), of asked "stored (be_disk (ac_storage c))"] assms(3) run
        storage_step_ok [OF l(2) b(2)] by auto
  qed
qed

lemma ac_storeAsset_ok:
  assumes "cache_ok asked c" and "valid_entry a u"
  shows "\<exists>c'. ac_storeAsset now a d c = (Inr (), c') \<and> cache_ok asked c'"
proof -
  obtain b where b: "be_storeAsset now a (PutCompleted a d) (ac_storage c) = (Inr (), b)" "consistent b"
    using be_storeAsset_consistent [OF cache_okD(1) [OF assms(1)] assms(2)] by blast
  then show ?thesis
    using be_storeAsset_changes [OF b(1), of asked "stored (be_disk (ac_storage c))"]
      storage_step_ok [OF assms(1) b(2), where c' = "c\<lparr>ac_storage := b\<rparr>"]
    by (auto simp: ac_storeAsset_def on_storage_def)
qed

lemma cache_work_ok:
  assumes "cache_ok asked c" and "io_ok io"
  shows "\<exists>c'. on_storage (workLoop_turn io t) c = (Inr (), c') \<and> cache_ok asked c'"
proof (cases "be_queue (ac_storage c) = [] \<or> be_stop (ac_storage c)")
  case True
  then show ?thesis using assms(1) workLoop_turn_idle [OF True] by (simp add: on_storage_def)
next
  case False
  note c = cache_okD [OF assms(1)]
  let ?m = "stored (be_disk (ac_storage c))"
  from False obtain r q where q: "be_queue (ac_storage c) = r # q" by (cases "be_queue (ac_storage c)") auto
  from workLoop_turn_ok [OF c(1) assms(2) _ q] False obtain b where
    b: "workLoop_turn io t (ac_storage c) = (Inr (), b)" "consistent b" "be_queue b = q"
      "stored (be_disk b) = apply_request ?m (fst r)" "be_posted b = be_posted (ac_storage c) @ answer ?m (fst r)" by blast
  have ok: "request_ok ?m (fst r)" "request_named asked (fst r)" "list_all (\<lambda>r. request_named asked (fst r)) q"
    using consistentD(2) [OF c(1)] c(6) q by simp_all
  have "list_all (posted_ok asked (stored (be_disk b))) (be_posted b)"
    using c(5) answer_ok [OF c(3) ok(1,2)] posted_ok_grows [OF ok(1)] unfolding b(4,5) list_all_append
    by (auto simp: list_all_iff)
  moreover have "stored (be_disk b) (fst x) = Some (snd x)" if "x \<in> set (bindings (ac_cache c))" for x
    using apply_request_grows [OF ok(1) c(4) [OF that]] b(4) by simp
  ultimately have "cache_ok asked (c\<lparr>ac_storage := b\<rparr>)"
    using b(2-4) c(2) ok(3) named_grows [OF ok(1) c(3)] by (simp add: cache_ok_def)
  then show ?thesis using b(1) by (simp add: on_storage_def)
qed

text \<open>What a caller is told.\<close>

fun delivered_ok :: "('d \<Rightarrow> string) \<Rightarrow> (string \<Rightarrow> Asset option) \<Rightarrow> 'd posted option \<Rightarrow> bool" where
  "delivered_ok asked m (Some (PostGet d (Some a) ok e)) \<longleftrightarrow> m (asked d) = Some a"
| "delivered_ok asked m _ \<longleftrightarrow> True"

fun delivery :: "'d cache_callback posted \<Rightarrow> 'd posted option" where
  "delivery (PostGet (GetCompleted f d) a ok e) = Some (PostGet d a ok e)"
| "delivery (PostGet (Callback d) a ok e) = Some (PostGet d a ok e)"
| "delivery (PostStore (PutCompleted a d) ok e) = Some (PostStore d ok e)"
| "delivery (PostStore (Callback d) ok e) = Some (PostStore d ok e)"
| "delivery (PostDone (Callback d)) = Some (PostDone d)"
| "delivery _ = None"

lemma delivery_ok: "posted_ok asked m h \<Longrightarrow> delivered_ok asked m (delivery h)"
  by (cases h rule: delivery.cases; auto) (metis delivered_ok.simps not_None_eq)+

lemma complete_ok:
  assumes "cache_ok asked c" and "posted_ok asked (stored (be_disk (ac_storage c))) h"
  shows "\<exists>c'. complete h c = (Inr (delivery h), c') \<and> cache_ok asked c' \<and> ac_storage c' = ac_storage c"
proof (cases h rule: complete.cases)
  case (1 f d a ok e)
  have "\<exists>c'. (case a of Some a \<Rightarrow> if ok \<and> f AND SF_DONTCACHE = 0 then cache_insert a else areturn ()
      | None \<Rightarrow> areturn ()) c = (Inr (), c') \<and> cache_ok asked c' \<and> ac_storage c' = ac_storage c"
  proof (cases a)
    case (Some x)
    then have "holds (stored (be_disk (ac_storage c))) x"
      using assms(2) 1 holds_named [OF cache_okD(3) [OF assms(1)]] by auto
    with Some show ?thesis using cache_insert_ok [OF assms(1)] assms(1) by fastforce
  qed (use assms(1) in simp)
  with 1 assms(2) show ?thesis by (auto simp: asyncGetCompleted_def abind_def)
next
  case (3 a d ok e)
  have "\<exists>c'. (if ok then cache_insert a else areturn ()) c = (Inr (), c') \<and> cache_ok asked c' \<and> ac_storage c' = ac_storage c"
    using cache_insert_ok [OF assms(1), of a] assms 3 by (cases ok) fastforce+
  with 3 show ?thesis by (auto simp: asyncPutCompleted_def abind_def)
qed (use assms(1) in auto)

lemma ac_run_posted_idle: "be_posted (ac_storage c) = [] \<Longrightarrow> ac_run_posted now c = (Inr None, c)"
  by (simp add: ac_run_posted_def abind_def on_storage_def run_posted_def)

lemma ac_run_posted_Cons:
  assumes "cache_ok asked c" and "be_posted (ac_storage c) = h # hs"
  shows "\<exists>c'. ac_run_posted now c = (Inr (delivery h), c') \<and> cache_ok asked c'
    \<and> ac_storage c' = (ac_storage c)\<lparr>be_posted := hs\<rparr>"
proof -
  note c = cache_okD [OF assms(1)]
  let ?b = "(ac_storage c)\<lparr>be_posted := hs\<rparr>"
  have "quiet h" "posted_ok asked (stored (be_disk (ac_storage c))) h" using consistentD(4) [OF c(1)] c(5) assms(2) by simp_all
  moreover have "consistent ?b" using c(1) assms(2) by (simp add: consistent_def)
  then have "cache_ok asked (c\<lparr>ac_storage := ?b\<rparr>)" using c assms(2) by (simp add: cache_ok_def)
  ultimately show ?thesis
    using complete_ok [of asked "c\<lparr>ac_storage := ?b\<rparr>" h] assms(2)
    by (cases h) (auto simp: ac_run_posted_def abind_def on_storage_def run_posted_def quiet_def)
qed

lemma ac_run_posted_ok:
  assumes "cache_ok asked c"
  shows "\<exists>r c'. ac_run_posted now c = (Inr r, c') \<and> cache_ok asked c'
    \<and> delivered_ok asked (stored (be_disk (ac_storage c))) r"
proof (cases "be_posted (ac_storage c)")
  case Nil
  then show ?thesis using assms ac_run_posted_idle by fastforce
next
  case (Cons h hs)
  then show ?thesis
    using ac_run_posted_Cons [OF assms Cons, of now] cache_okD(5) [OF assms] delivery_ok by fastforce
qed

lemma cache_do_ok:
  assumes "cache_ok asked c" and "cache_event_ok asked e"
  shows "\<exists>r c'. cache_do e c = (Inr r, c') \<and> cache_ok asked c'"
proof (cases e)
  case (CacheGet now u f d)
  with assms(2) ac_getAsset_flags_ok [OF assms(1), of u d now f] show ?thesis by (auto simp: abind_def)
next
  case (CacheStore now a d)
  with assms(2) ac_storeAsset_ok [OF assms(1), of a _ now d] show ?thesis by (fastforce simp: abind_def)
next
  case (CacheWork io t)
  with assms(2) cache_work_ok [OF assms(1), of io t] show ?thesis by (auto simp: abind_def)
next
  case (CachePosted now)
  with ac_run_posted_ok [OF assms(1), of now] show ?thesis by auto
qed

lemma cache_reach_ok: "cache_reach asked c c' \<Longrightarrow> cache_ok asked c \<Longrightarrow> cache_ok asked c'"
  by (induction rule: cache_reach.induct) (use cache_do_ok in fastforce)+

lemma cache_new_ok:
  assumes "started s b" and "named (stored s)"
  shows "cache_ok asked (AssetCache_new m b)"
proof -
  have b: "consistent b" "stored (be_disk b) = stored s" using started_consistent [OF assms(1)] by simp_all
  obtain io ds where "VFSBackend_new io s (Some ds) = Inr b" using assms(1) unfolding started_def by blast
  then have "be_posted b = []" "be_queue b = []"
    by (auto simp: VFSBackend_new_def)
  with b assms(2) show ?thesis by (simp add: cache_ok_def AssetCache_new_def lru_inv_new)
qed

section \<open>Answers of the cache\<close>

fun posted_turns :: "int list \<Rightarrow> ('d AssetCache, 'd posted option list) action" where
  "posted_turns [] = areturn []"
| "posted_turns (t # ts) = abind (ac_run_posted t) (\<lambda>r. abind (posted_turns ts) (\<lambda>rs. areturn (r # rs)))"

lemma posted_turns_ok:
  assumes "cache_ok asked c" and "length ts = length (be_posted (ac_storage c))"
  shows "\<exists>c'. posted_turns ts c = (Inr (map delivery (be_posted (ac_storage c))), c')
    \<and> be_disk (ac_storage c') = be_disk (ac_storage c)"
  using assms
proof (induction ts arbitrary: c)
  case (Cons t ts)
  then obtain h hs where hs: "be_posted (ac_storage c) = h # hs" by (cases "be_posted (ac_storage c)") auto
  from ac_run_posted_Cons [OF Cons.prems(1) hs, of t] obtain c1 where
    c1: "ac_run_posted t c = (Inr (delivery h), c1)" "cache_ok asked c1" "ac_storage c1 = (ac_storage c)\<lparr>be_posted := hs\<rparr>"
    by blast
  from Cons.IH [OF c1(2)] show ?case using Cons.prems(2) c1 hs by (auto simp: abind_def)
qed simp

lemma cache_work_turns_ok:
  "cache_ok asked c \<Longrightarrow> io_ok io \<Longrightarrow> \<exists>c'. on_storage (work_turns io ts) c = (Inr (), c') \<and> cache_ok asked c'"
proof (induction ts arbitrary: c)
  case (Cons t ts)
  from cache_work_ok [OF Cons.prems, of t] obtain b where
    b: "workLoop_turn io t (ac_storage c) = (Inr (), b)" "cache_ok asked (c\<lparr>ac_storage := b\<rparr>)"
    by (auto simp: on_storage_def split: prod.splits)
  from Cons.IH [OF b(2) Cons.prems(2)] show ?case
    using b(1) by (auto simp: on_storage_def abind_def split: prod.splits)
qed (simp add: on_storage_def)

lemma ac_getAsset_eq: "ac_getAsset now u d = ac_getAsset_flags now u SF_NONE d"
  by (simp add: ac_getAsset_def ac_getAsset_flags_def)

text \<open>An id that exists is answered from the cache or queued for the disk.\<close>

lemma ac_getAsset_pending:
  assumes "cache_ok asked c" and "IsValidUUID u" and "ac_assetExists u c = Inr True"
    and "ac_getAsset now u d c = (Inr (), c1)"
  shows "(\<exists>a. PostGet (Callback d) (Some a) True None \<in> set (be_posted (ac_storage c1)))
    \<or> (AssetGetRequest u (GetCompleted SF_NONE d), now) \<in> set (be_queue (ac_storage c1))"
proof -
  obtain l where l: "cache_fetch u c = (Inr (map_of (bindings (ac_cache c)) u), c\<lparr>ac_cache := l\<rparr>)"
    using cache_fetch_ok [OF assms(1)] by blast
  show ?thesis
  proof (cases "map_of (bindings (ac_cache c)) u")
    case (Some a)
    then show ?thesis
      using l assms(4) by (auto simp: ac_getAsset_def abind_def on_storage_def post_def)
  next
    case None
    then have "lru_index (ac_cache c) u = None"
      using index_None [OF cache_okD(2) [OF assms(1)]] by (simp add: map_of_eq_None_iff)
    then have "uuid_of u \<in> be_index (ac_storage c)"
      using assms(2,3) by (simp add: ac_assetExists_def lru_exists_def be_assetExists_def index_assetExists_def uuid_value_valid)
    then show ?thesis
      using None l assms(2,4)
      by (auto simp: ac_getAsset_def abind_def on_storage_def be_getAsset_def index_assetExists_def uuid_value_valid enqueue_def)
  qed
qed

lemma be_stop_keeps:
  "be_getAsset now u k b = (Inr (), b') \<Longrightarrow> be_stop b' = be_stop b"
  by (auto simp: be_getAsset_def abind_def post_def enqueue_def split: sum.splits if_splits)

lemma ac_getAsset_stop:
  assumes "cache_ok asked c" and "ac_getAsset now u d c = (Inr (), c1)"
  shows "be_stop (ac_storage c1) = be_stop (ac_storage c)"
proof -
  obtain l where l: "cache_fetch u c = (Inr (map_of (bindings (ac_cache c)) u), c\<lparr>ac_cache := l\<rparr>)"
    using cache_fetch_ok [OF assms(1)] by blast
  then show ?thesis
    using assms(2)
    by (auto simp: ac_getAsset_def abind_def on_storage_def post_def be_stop_keeps split: option.splits prod.splits sum.splits)
qed

lemma get_served:
  assumes "cache_ok asked c" and "\<not> be_stop (ac_storage c)" and "io_ok io" and "IsValidUUID u"
    and "ac_assetExists u c = Inr True" and "ac_getAsset now u d c = (Inr (), c1)" and "cache_ok asked c1"
    and "length ts = length (be_queue (ac_storage c1))"
  shows "\<exists>c2 k a. on_storage (work_turns io ts) c1 = (Inr (), c2) \<and> cache_ok asked c2
    \<and> PostGet k (Some a) True None \<in> set (be_posted (ac_storage c2)) \<and> (k = Callback d \<or> k = GetCompleted SF_NONE d)"
proof -
  from work_turns_ok [OF cache_okD(1) [OF assms(7)] assms(3) _ assms(8)] assms(2) ac_getAsset_stop [OF assms(1,6)]
  obtain b2 where b2: "work_turns io ts (ac_storage c1) = (Inr (), b2)"
    "be_posted b2 = be_posted (ac_storage c1) @ answers (stored (be_disk (ac_storage c1))) (be_queue (ac_storage c1))"
    by auto
  then have run: "on_storage (work_turns io ts) c1 = (Inr (), c1\<lparr>ac_storage := b2\<rparr>)" by (simp add: on_storage_def)
  then have "cache_ok asked (c1\<lparr>ac_storage := b2\<rparr>)" using cache_work_turns_ok [OF assms(7,3), of ts] by simp
  moreover have "\<exists>k a. PostGet k (Some a) True None \<in> set (be_posted b2) \<and> (k = Callback d \<or> k = GetCompleted SF_NONE d)"
    using ac_getAsset_pending [OF assms(1,4,5,6)] answers_get [OF consistentD(2) [OF cache_okD(1) [OF assms(7)]]] b2(2)
    by fastforce
  then obtain k a where "PostGet k (Some a) True None \<in> set (be_posted (ac_storage (c1\<lparr>ac_storage := b2\<rparr>)))"
    "k = Callback d \<or> k = GetCompleted SF_NONE d" by auto
  ultimately show ?thesis using run by blast
qed

lemma get_told:
  assumes "cache_ok asked c" and "length ns = length (be_posted (ac_storage c))"
    and "PostGet k (Some a) True None \<in> set (be_posted (ac_storage c))" and "k = Callback d \<or> k = GetCompleted SF_NONE d"
  shows "\<exists>rs c'. posted_turns ns c = (Inr rs, c') \<and> Some (PostGet d (Some a) True None) \<in> set rs
    \<and> stored (be_disk (ac_storage c')) (asked d) = Some a"
proof -
  have "posted_ok asked (stored (be_disk (ac_storage c))) (PostGet k (Some a) True None)"
    using cache_okD(5) [OF assms(1)] assms(3) by (auto simp: list_all_iff)
  then have "stored (be_disk (ac_storage c)) (asked d) = Some a" using assms(4) by auto
  moreover have "Some (PostGet d (Some a) True None) \<in> set (map delivery (be_posted (ac_storage c)))"
    unfolding set_map by (rule image_eqI [where f = delivery, OF _ assms(3)]) (use assms(4) in auto)
  ultimately show ?thesis using posted_turns_ok [OF assms(1,2)] by fastforce
qed

definition sample_cache :: "nat AssetCache" where
  "sample_cache = AssetCache_new 1000000 \<lparr>be_disk = Storage_new ''data'', be_index = {}, be_queue = [], be_posted = [],
     be_stop = False, be_purging = False, be_purge_index = 0, be_timer = False,
     be_latency = MovingAverage_new DISK_LATENCY_SAMPLE_SIZE,
     be_op = MovingAverage_new DISK_LATENCY_SAMPLE_SIZE, be_push = [], be_journal = (\<lambda>_. [])\<rparr>"

lemma sample_cache_started:
  "started (Storage_new ''data'') (ac_storage sample_cache)" "AssetCache_new 1000000 (ac_storage sample_cache) = sample_cache"
proof -
  have "VFSBackend_new io_plain (Storage_new ''data'') (Some []) = Inr (ac_storage sample_cache)"
    by (simp add: VFSBackend_new_def sample_cache_def AssetCache_new_def Storage_new_def)
  then show "started (Storage_new ''data'') (ac_storage sample_cache)"
    unfolding started_def
    by (intro conjI exI [of _ io_plain] exI [of _ "[]"])
      (simp_all add: disk_ok_new listed_def idx_files_def io_plain_def [THEN arg_cong, of io_sql])
qed (simp add: sample_cache_def AssetCache_new_def)

definition sample_stored :: "nat AssetCache" where
  "sample_stored = snd (cache_do (CacheStore 0 sample_asset 7) sample_cache)"

lemma sample_stored_run:
  "sample_stored = sample_cache\<lparr>ac_storage := (ac_storage sample_cache)\<lparr>be_index := {uuid_of (replicate 32 CHR ''a'')},
     be_queue := [(AssetPutRequest sample_asset (PutCompleted sample_asset 7), 0)]\<rparr>\<rparr>"
proof -
  have "Asset_getUUID sample_asset = Inr (replicate 32 CHR ''a'')" using sample_storable(1) by (simp add: storable_def)
  then show ?thesis
    using sample_valid
    by (simp add: sample_stored_def abind_def ac_storeAsset_def on_storage_def be_storeAsset_def index_assetExists_def addNewId_def
        uuid_value_valid enqueue_def sample_cache_def AssetCache_new_def)
qed

lemma sample_stored_facts:
  "cache_reach (\<lambda>_. replicate 32 CHR ''a'') sample_cache sample_stored" "named (stored (Storage_new ''data''))"
  "ac_assetExists (replicate 32 CHR ''a'') sample_stored = Inr True" "\<not> be_stop (ac_storage sample_stored)"
proof -
  show "cache_reach (\<lambda>_. replicate 32 CHR ''a'') sample_cache sample_stored"
    unfolding sample_stored_def
    by (rule cache_step [OF cache_init _ surjective_pairing]) (use sample_entry in auto)
  show "ac_assetExists (replicate 32 CHR ''a'') sample_stored = Inr True" "\<not> be_stop (ac_storage sample_stored)"
    unfolding sample_stored_run using sample_valid
    by (simp_all add: ac_assetExists_def be_assetExists_def index_assetExists_def uuid_value_valid sample_cache_def AssetCache_new_def
        lru_exists_def LRUCache_new_def)
qed (simp add: named_def)

text \<open>
  C14: In every state the cache reaches from its start by valid gets and stores, faultless turns of
  the worker and posted handlers in any order, the cache holds only assets of the disk under their
  own ids, and the next posted handler ends without an exception and gives a caller that asked for
  an id nothing but the asset the disk holds under that id.
\<close>

theorem cache_coherent:
  assumes "started s b" and "named (stored s)" and "cache_reach asked (AssetCache_new m b) c"
  shows "(\<forall>x \<in> set (bindings (ac_cache c)). stored (be_disk (ac_storage c)) (fst x) = Some (snd x))
    \<and> (\<exists>r c'. ac_run_posted now c = (Inr r, c') \<and> delivered_ok asked (stored (be_disk (ac_storage c))) r)"
proof -
  have c: "cache_ok asked c" using cache_reach_ok [OF assms(3) cache_new_ok [OF assms(1,2)]] .
  show ?thesis using cache_okD(4) [OF c] ac_run_posted_ok [OF c, of now] by blast
qed

theorem cache_coherent_witness:
  "\<exists>r c'. ac_run_posted 0 sample_stored = (Inr r, c')
    \<and> delivered_ok (\<lambda>_. replicate 32 CHR ''a'') (stored (be_disk (ac_storage sample_stored))) r"
  using cache_coherent [OF sample_cache_started(1), of "\<lambda>_. replicate 32 CHR ''a''" 1000000 sample_stored 0]
    sample_stored_facts unfolding sample_cache_started(2) by blast

text \<open>
  C15: Take a disk whose assets have less than \<open>2 ^ 32\<close> bytes and their own ids, and a state the
  cache reaches from its start on it by gets and stores with valid ids, turns of the worker without
  faults and posted handlers in any order - there was no purge and no maintenance request - and in
  which the worker has not been told to stop.  A caller that asks for a valid id the cache reports
  as existing is answered with its asset: once the worker has taken the queued requests, meeting no
  fault, and the network thread the posted handlers, the caller's callback has run with success and
  the asset the disk holds under the id.
\<close>

theorem cache_answers:
  assumes "started s b" and "named (stored s)" and "cache_reach asked (AssetCache_new m b) c"
    and "\<not> be_stop (ac_storage c)" and "io_ok io" and "IsValidUUID u" and "asked d = u"
    and "ac_assetExists u c = Inr True"
  shows "\<exists>c1. ac_getAsset now u d c = (Inr (), c1)
    \<and> (\<forall>ts. length ts = length (be_queue (ac_storage c1)) \<longrightarrow>
        (\<exists>c2. on_storage (work_turns io ts) c1 = (Inr (), c2)
    \<and> (\<forall>ns. length ns = length (be_posted (ac_storage c2)) \<longrightarrow>
        (\<exists>rs c3 a. posted_turns ns c2 = (Inr rs, c3) \<and> Some (PostGet d (Some a) True None) \<in> set rs
          \<and> stored (be_disk (ac_storage c3)) u = Some a))))"
proof -
  have c: "cache_ok asked c" using cache_reach_ok [OF assms(3) cache_new_ok [OF assms(1,2)]] .
  obtain c1 where c1: "ac_getAsset now u d c = (Inr (), c1)" "cache_ok asked c1"
    using ac_getAsset_flags_ok [OF c assms(6,7)] unfolding ac_getAsset_eq by blast
  show ?thesis
  proof (rule exI, rule conjI [OF c1(1)], intro allI impI)
    fix ts :: "(int \<times> int \<times> int) list" assume "length ts = length (be_queue (ac_storage c1))"
    from get_served [OF c assms(4,5,6,8) c1 this] obtain c2 k a where
      c2: "on_storage (work_turns io ts) c1 = (Inr (), c2)" "cache_ok asked c2"
        "PostGet k (Some a) True None \<in> set (be_posted (ac_storage c2))" "k = Callback d \<or> k = GetCompleted SF_NONE d"
      by blast
    from get_told [OF c2(2) _ c2(3,4)] show "\<exists>c2. on_storage (work_turns io ts) c1 = (Inr (), c2)
        \<and> (\<forall>ns. length ns = length (be_posted (ac_storage c2)) \<longrightarrow>
          (\<exists>rs c3 a. posted_turns ns c2 = (Inr rs, c3) \<and> Some (PostGet d (Some a) True None) \<in> set rs
            \<and> stored (be_disk (ac_storage c3)) u = Some a))"
      unfolding assms(7) by (intro exI [of _ c2] conjI c2(1)) blast
  qed
qed

theorem cache_answers_witness:
  "\<exists>c1. ac_getAsset 1 (replicate 32 CHR ''a'') 8 sample_stored = (Inr (), c1)
    \<and> length (be_queue (ac_storage c1)) = 2
    \<and> (\<exists>c2 rs c3 a. on_storage (work_turns io_plain [(0, 0, 0), (0, 0, 0)]) c1 = (Inr (), c2)
       \<and> posted_turns (replicate (length (be_posted (ac_storage c2))) 2) c2 = (Inr rs, c3)
       \<and> Some (PostGet 8 (Some a) True None) \<in> set rs
       \<and> stored (be_disk (ac_storage c3)) (replicate 32 CHR ''a'') = Some a)"
proof -
  let ?u = "replicate 32 CHR ''a''"
  obtain c1 where c1: "ac_getAsset 1 ?u 8 sample_stored = (Inr (), c1)"
    "\<forall>ts. length ts = length (be_queue (ac_storage c1)) \<longrightarrow> (\<exists>c2. on_storage (work_turns io_plain ts) c1 = (Inr (), c2)
       \<and> (\<forall>ns. length ns = length (be_posted (ac_storage c2)) \<longrightarrow>
           (\<exists>rs c3 a. posted_turns ns c2 = (Inr rs, c3) \<and> Some (PostGet 8 (Some a) True None) \<in> set rs
             \<and> stored (be_disk (ac_storage c3)) ?u = Some a)))"
    using cache_answers [OF sample_cache_started(1), of "\<lambda>_. ?u" 1000000 sample_stored io_plain ?u 8 1]
      sample_stored_facts io_ok_plain sample_valid unfolding sample_cache_started(2) by blast
  moreover have "length (be_queue (ac_storage c1)) = 2"
    using c1(1) sample_valid unfolding sample_stored_run
    by (auto simp: ac_getAsset_def cache_fetch_def abind_def on_storage_def be_getAsset_def index_assetExists_def uuid_value_valid
        enqueue_def sample_cache_def AssetCache_new_def fetch_def touch_key_def LRUCache_new_def)
  moreover have "length [(0, 0, 0), (0, 0, 0)] = (2 :: nat)" by simp
  ultimately show ?thesis by (metis length_replicate)
qed

end
