(* ===== verification/Connection.thy ===== *)
theory Connection
  imports Cache
begin

text \<open>
  The connections of the asset server (\<open>AssetClient\<close>) in their two states: before the challenge is
  answered (\<open>CSUnauthenticated\<close>) and after (\<open>CSAuthenticated\<close>).  A handler changes the client, starts
  at most one operation on its socket and makes at most one call to the storage or the mesh; what it
  starts is kept in the client until the environment completes it.
\<close>

section \<open>Clients\<close>

record ClientStats =
  reqSinceLastPoll :: int
  kbTransferredSinceLastPoll :: int
  meshKbTransferredSinceLastPoll :: int

record CSUnauthenticated =
  cu_challenge :: "AuthChallengeMsg option"
  cu_response :: "AuthResponseMsg option"
  cu_authStatus :: "AuthStatusMsg option"
  cu_mesh :: bool

record CSAuthenticated =
  ca_mesh :: bool
  ca_active :: bool
  ca_since :: int
  ca_request :: "ClientRequestMsg option"
  ca_status :: "string option"
  ca_ids :: "string option"

datatype IConnectionState = Unauthenticated CSUnauthenticated | Authenticated CSAuthenticated

text \<open>The operations on the socket, each with the handler it ends in.\<close>

datatype write_handler =
    HandleWriteChallenge
  | HandleWriteAuthFailure
  | HandleWriteAuthSuccess
  | HandleResponseHeaderWrite ServerResponseMsg
  | HandleResponseDataWrite ServerResponseMsg

datatype read_handler =
    HandleReadChallengeResponse
  | HandleClientRequestHeaderRead
  | HandleAssetDataRead

datatype socket_op = AsyncWrite bytes write_handler | AsyncRead nat read_handler

datatype storage_call =
    StorageGet string u32
  | StorageStore Asset
  | StoragePurge string
  | StorageGetStatus string
  | StorageGetIds string
  | MeshGet string

text \<open>
  \<open>cl_connected\<close>: the server still holds the client, so the pointers to it of its handlers are valid;
  \<open>cl_purges\<close>: how often it started a purge, which has no answer.  \<open>cl_stats\<close> stands for the counters
  of the class, which all connections share: it is what they hold while only this one runs.
\<close>

record AssetClient =
  cl_state :: IConnectionState
  cl_connected :: bool
  cl_open :: bool
  cl_ops :: "socket_op list"
  cl_calls :: "storage_call list"
  cl_purges :: nat
  cl_stats :: ClientStats

definition add_int :: "int \<Rightarrow> int \<Rightarrow> int result" where
  "add_int a b = (if a + b < - (2 ^ 31) \<or> 2 ^ 31 \<le> a + b then Inl UndefinedBehaviour else Inr (a + b))"

definition stat :: "(ClientStats \<Rightarrow> ClientStats result) \<Rightarrow> (AssetClient, unit) action" where
  "stat f cl = (case f (cl_stats cl) of Inl e \<Rightarrow> (Inl e, cl) | Inr s \<Rightarrow> (Inr (), cl\<lparr>cl_stats := s\<rparr>))"

definition AddRequestToStats :: "(AssetClient, unit) action" where
  "AddRequestToStats = stat (\<lambda>s. ebind (add_int (reqSinceLastPoll s) 1) (\<lambda>n. Inr (s\<lparr>reqSinceLastPoll := n\<rparr>)))"

text \<open>\<open>(int) floorf(bytes / 1000.0f + 0.5f)\<close>, and at least one.\<close>

definition transfer_kb :: "int \<Rightarrow> int" where
  "transfer_kb bytes =
     (if bytes < 1000 then 1 else \<lfloor>float32 (float32 (float32 (of_int bytes) / 1000) + 1 / 2)\<rfloor>)"

definition AddTransferToStats :: "int \<Rightarrow> (AssetClient, unit) action" where
  "AddTransferToStats bytes = stat (\<lambda>s. ebind (add_int (kbTransferredSinceLastPoll s) (transfer_kb bytes))
     (\<lambda>n. Inr (s\<lparr>kbTransferredSinceLastPoll := n\<rparr>)))"

definition AddMeshTransferToStats :: "int \<Rightarrow> (AssetClient, unit) action" where
  "AddMeshTransferToStats bytes = stat (\<lambda>s. ebind (add_int (meshKbTransferredSinceLastPoll s) (transfer_kb bytes))
     (\<lambda>n. Inr (s\<lparr>meshKbTransferredSinceLastPoll := n\<rparr>)))"

definition GetNumRequestsStat :: "(AssetClient, int) action" where
  "GetNumRequestsStat cl = (Inr (reqSinceLastPoll (cl_stats cl)),
     cl\<lparr>cl_stats := (cl_stats cl)\<lparr>reqSinceLastPoll := 0\<rparr>\<rparr>)"

definition GetKBTransferredStat :: "(AssetClient, int) action" where
  "GetKBTransferredStat cl = (Inr (kbTransferredSinceLastPoll (cl_stats cl)),
     cl\<lparr>cl_stats := (cl_stats cl)\<lparr>kbTransferredSinceLastPoll := 0\<rparr>\<rparr>)"

definition GetMeshKBTransferredStat :: "(AssetClient, int) action" where
  "GetMeshKBTransferredStat cl = (Inr (meshKbTransferredSinceLastPoll (cl_stats cl)),
     cl\<lparr>cl_stats := (cl_stats cl)\<lparr>meshKbTransferredSinceLastPoll := 0\<rparr>\<rparr>)"

definition CSUnauthenticated_new :: CSUnauthenticated where
  "CSUnauthenticated_new = \<lparr>cu_challenge = None, cu_response = None, cu_authStatus = None, cu_mesh = False\<rparr>"

definition CSAuthenticated_new :: "int \<Rightarrow> bool \<Rightarrow> CSAuthenticated" where
  "CSAuthenticated_new now isMeshConnection =
     \<lparr>ca_mesh = isMeshConnection, ca_active = False, ca_since = now, ca_request = None,
      ca_status = None, ca_ids = None\<rparr>"

definition setState :: "IConnectionState \<Rightarrow> (AssetClient, unit) action" where
  "setState st = amodify (\<lambda>cl. cl\<lparr>cl_state := st\<rparr>)"

text \<open>A new client with its initial state, as the acceptor makes it.\<close>

definition AssetClient_new :: "ClientStats \<Rightarrow> AssetClient" where
  "AssetClient_new stats = \<lparr>cl_state = Unauthenticated CSUnauthenticated_new, cl_connected = False, cl_open = True,
     cl_ops = [], cl_calls = [], cl_purges = 0, cl_stats = stats\<rparr>"

definition disconnect :: "(AssetClient, unit) action" where
  "disconnect = amodify (\<lambda>cl. cl\<lparr>cl_open := False, cl_connected := False\<rparr>)"

definition socket :: "socket_op \<Rightarrow> (AssetClient, unit) action" where
  "socket op = amodify (\<lambda>cl. cl\<lparr>cl_ops := cl_ops cl @ [op]\<rparr>)"

definition call :: "storage_call \<Rightarrow> (AssetClient, unit) action" where
  "call c = amodify (\<lambda>cl. cl\<lparr>cl_calls := cl_calls cl @ [c]\<rparr>)"

text \<open>\<open>if (client = _client.lock())\<close>\<close>

definition with_client :: "(AssetClient, unit) action \<Rightarrow> (AssetClient, unit) action" where
  "with_client m = abind (aget cl_connected) (\<lambda>c. if c then m else areturn ())"

text \<open>The handlers of a state object run on that object.\<close>

definition on_unauth :: "(CSUnauthenticated \<Rightarrow> (AssetClient, 'a) action) \<Rightarrow> (AssetClient, 'a) action" where
  "on_unauth f cl = (case cl_state cl of Unauthenticated u \<Rightarrow> f u cl | Authenticated _ \<Rightarrow> (Inl UndefinedBehaviour, cl))"

definition on_auth :: "(CSAuthenticated \<Rightarrow> (AssetClient, 'a) action) \<Rightarrow> (AssetClient, 'a) action" where
  "on_auth f cl = (case cl_state cl of Authenticated a \<Rightarrow> f a cl | Unauthenticated _ \<Rightarrow> (Inl UndefinedBehaviour, cl))"

definition upd_auth :: "(CSAuthenticated \<Rightarrow> CSAuthenticated) \<Rightarrow> (AssetClient, unit) action" where
  "upd_auth f = on_auth (\<lambda>a. setState (Authenticated (f a)))"

text \<open>Dereferencing a null pointer is not defined.\<close>

definition current_request :: "(AssetClient, ClientRequestMsg) action" where
  "current_request = on_auth (\<lambda>a. case ca_request a of Some r \<Rightarrow> areturn r | None \<Rightarrow> araise UndefinedBehaviour)"

definition request_uuid :: "(AssetClient, string) action" where
  "request_uuid = abind current_request (\<lambda>r. alift (Request_getUUID r))"

section \<open>Authenticated connections\<close>

definition waitForRequest :: "(AssetClient, unit) action" where
  "waitForRequest =
     abind (upd_auth (\<lambda>a. a\<lparr>ca_request := Some ClientRequestMsg_new, ca_active := False\<rparr>)) (\<lambda>_.
     with_client (socket (AsyncRead HEADER_SIZE HandleClientRequestHeaderRead)))"

definition auth_start :: "(AssetClient, unit) action" where
  "auth_start = with_client waitForRequest"

definition handleIoFailure :: "(AssetClient, unit) action" where
  "handleIoFailure = with_client disconnect"

definition sendResponse :: "ServerResponseMsg \<Rightarrow> (AssetClient, unit) action" where
  "sendResponse response =
     with_client (socket (AsyncWrite (sr_header response) (HandleResponseHeaderWrite response)))"

definition sendError :: "string \<Rightarrow> (AssetClient, unit) action" where
  "sendError errorMsg =
     abind request_uuid (\<lambda>u.
     abind (alift (ServerResponseMsg_text RC_ERROR u errorMsg)) sendResponse)"

text \<open>A request handler that answers every exception with an error message.\<close>

definition or_error :: "(AssetClient, unit) action \<Rightarrow> (AssetClient, unit) action" where
  "or_error m = acatch m (\<lambda>e. sendError (what e))"

definition valid_uuid :: "(AssetClient, string) action" where
  "valid_uuid = abind request_uuid (\<lambda>u.
     if \<not> IsValidUUID u then araise (RuntimeError (''Invalid asset UUID: '' @ u)) else areturn u)"

definition handleGetRequest :: "bool \<Rightarrow> (AssetClient, unit) action" where
  "handleGetRequest cacheResult =
     or_error (abind valid_uuid (\<lambda>u.
       call (StorageGet u (if \<not> cacheResult then SF_DONTCACHE else SF_NONE))))"

definition handleIntrameshGetResponse :: "string \<Rightarrow> Asset option \<Rightarrow> (AssetClient, unit) action" where
  "handleIntrameshGetResponse uuid foundAsset =
     (case foundAsset of
        Some a \<Rightarrow> abind (alift (ebind (Asset_getUUID a) (\<lambda>u. ServerResponseMsg_data RC_FOUND u (getData a)))) sendResponse
      | None \<Rightarrow> abind (alift (ServerResponseMsg_code RC_NOTFOUND uuid)) sendResponse)"

text \<open>The asset of a successful answer is never null.\<close>

definition handleStorageGetResponse :: "Asset option \<Rightarrow> bool \<Rightarrow> exn option \<Rightarrow> (AssetClient, unit) action" where
  "handleStorageGetResponse foundAsset success error =
     (if success then
        (case foundAsset of
           None \<Rightarrow> araise UndefinedBehaviour
         | Some a \<Rightarrow> abind (alift (ebind (Asset_getUUID a) (\<lambda>u. ServerResponseMsg_data RC_FOUND u (getData a)))) sendResponse)
      else
        on_auth (\<lambda>s.
          if \<not> ca_mesh s
          then abind request_uuid (\<lambda>u. call (MeshGet u))
          else abind request_uuid (\<lambda>u. abind (alift (ServerResponseMsg_code RC_NOTFOUND u)) sendResponse)))"

definition handlePurgeRequest :: "(AssetClient, unit) action" where
  "handlePurgeRequest = or_error (abind valid_uuid (\<lambda>u. call (StoragePurge u)))"

definition handleStoragePurgeResponse :: "bool \<Rightarrow> exn option \<Rightarrow> (AssetClient, unit) action" where
  "handleStoragePurgeResponse success error =
     (if success then abind request_uuid (\<lambda>u. abind (alift (ServerResponseMsg_code RC_OK u)) sendResponse)
      else (case error of None \<Rightarrow> araise UndefinedBehaviour | Some e \<Rightarrow> sendError (what e)))"

definition handlePutRequest :: "(AssetClient, unit) action" where
  "handlePutRequest =
     abind current_request (\<lambda>r.
     abind (alift (initDataStorageFromHeader r)) (\<lambda>r'.
     abind (upd_auth (\<lambda>a. a\<lparr>ca_request := Some r'\<rparr>)) (\<lambda>_.
     with_client (abind (alift (getDataSize r')) (\<lambda>n. socket (AsyncRead (unat n) HandleAssetDataRead))))))"

definition handleStorageWriteResponse :: "bool \<Rightarrow> exn option \<Rightarrow> (AssetClient, unit) action" where
  "handleStorageWriteResponse success error =
     abind (if success then abind request_uuid (\<lambda>u. abind (alift (ServerResponseMsg_code RC_OK u)) sendResponse)
            else (case error of None \<Rightarrow> araise UndefinedBehaviour | Some e \<Rightarrow> sendError (what e))) (\<lambda>_.
     abind current_request (\<lambda>r.
     abind (alift (getDataSize r)) (\<lambda>n. AddTransferToStats (to_int (uint n)))))"

definition handleAssetDataRead :: "bool \<Rightarrow> (AssetClient, unit) action" where
  "handleAssetDataRead error =
     (if \<not> error then
        or_error (
          abind current_request (\<lambda>r.
          case cr_data r of
            None \<Rightarrow> araise UndefinedBehaviour
          | Some d \<Rightarrow>
              abind (alift (Asset_getUUID (Asset d))) (\<lambda>u.
              if \<not> IsValidUUID u
              then abind (alift (Request_getUUID r)) (\<lambda>h. araise (RuntimeError (''Invalid asset UUID: '' @ h)))
              else call (StorageStore (Asset d)))))
      else handleIoFailure)"

text \<open>\<open>assetExists\<close> is the storage's answer to a synchronous question.\<close>

definition handleTestRequest :: "(string \<Rightarrow> bool result) \<Rightarrow> (AssetClient, unit) action" where
  "handleTestRequest assetExists =
     or_error (abind valid_uuid (\<lambda>u.
       abind (alift (assetExists u)) (\<lambda>haveAsset.
       abind (alift (ServerResponseMsg_code (if haveAsset then RC_FOUND else RC_NOTFOUND) u)) sendResponse)))"

definition null_uuid :: string where
  "null_uuid = replicate 32 CHR ''0''"

definition handlePurgeLocals :: "(AssetClient, unit) action" where
  "handlePurgeLocals =
     or_error (abind (amodify (\<lambda>cl. cl\<lparr>cl_purges := cl_purges cl + 1\<rparr>)) (\<lambda>_.
       abind (alift (ServerResponseMsg_code RC_OK null_uuid)) sendResponse))"

text \<open>\<open>serverStatus\<close> and \<open>meshStatus\<close> are what the server and the mesh write to the stream.\<close>

definition handleStatusGet :: "string \<Rightarrow> (AssetClient, unit) action" where
  "handleStatusGet serverStatus =
     (let head = ''WHIP Server Status'' @ [CHR 0x0A, CHR 0x0A] in
      abind (upd_auth (\<lambda>a. a\<lparr>ca_status := Some head\<rparr>)) (\<lambda>_.
      with_client (
        abind (upd_auth (\<lambda>a. a\<lparr>ca_status := Some (head @ serverStatus)\<rparr>)) (\<lambda>_.
        call (StorageGetStatus (head @ serverStatus))))))"

definition statusGetCompleted :: "string \<Rightarrow> string \<Rightarrow> (AssetClient, unit) action" where
  "statusGetCompleted stream meshStatus =
     abind (alift (ServerResponseMsg_text RC_OK null_uuid (stream @ meshStatus))) (\<lambda>r.
     abind (upd_auth (\<lambda>a. a\<lparr>ca_status := None\<rparr>)) (\<lambda>_. sendResponse r))"

definition handleStoredAssetIdsGet :: "(AssetClient, unit) action" where
  "handleStoredAssetIdsGet =
     abind (upd_auth (\<lambda>a. a\<lparr>ca_ids := Some []\<rparr>)) (\<lambda>_.
     with_client (abind request_uuid (\<lambda>u. call (StorageGetIds (take 3 u)))))"

definition storedAssetIdsGetCompleted :: "string \<Rightarrow> (AssetClient, unit) action" where
  "storedAssetIdsGetCompleted stream =
     abind (alift (ServerResponseMsg_text RC_OK null_uuid stream)) (\<lambda>r.
     abind (upd_auth (\<lambda>a. a\<lparr>ca_ids := None\<rparr>)) (\<lambda>_. sendResponse r))"

text \<open>What a handler asks of its surroundings.\<close>

record Env =
  env_now :: int
  env_password :: string
  env_random :: "nat \<Rightarrow> byte"
  env_exists :: "string \<Rightarrow> bool result"
  env_server_status :: string

definition handle_request :: "Env \<Rightarrow> RequestType \<Rightarrow> (AssetClient, unit) action" where
  "handle_request env t =
     (case t of
        RT_GET \<Rightarrow> handleGetRequest True
      | RT_PURGE \<Rightarrow> handlePurgeRequest
      | RT_PUT \<Rightarrow> handlePutRequest
      | RT_TEST \<Rightarrow> handleTestRequest (env_exists env)
      | RT_MAINT_PURGELOCALS \<Rightarrow> handlePurgeLocals
      | RT_STATUS_GET \<Rightarrow> handleStatusGet (env_server_status env)
      | RT_STORED_ASSET_IDS_GET \<Rightarrow> handleStoredAssetIdsGet
      | RT_GET_DONTCACHE \<Rightarrow> handleGetRequest False)"

definition handleClientRequestHeaderRead :: "Env \<Rightarrow> bool \<Rightarrow> (AssetClient, unit) action" where
  "handleClientRequestHeaderRead env error =
     (if \<not> error then
        acatch
          (abind AddRequestToStats (\<lambda>_.
           abind (upd_auth (\<lambda>a. a\<lparr>ca_active := True, ca_since := env_now env\<rparr>)) (\<lambda>_.
           abind current_request (\<lambda>r.
           abind (alift (Request_getType r)) (handle_request env)))))
          (\<lambda>e. with_client disconnect)
      else handleIoFailure)"

definition handleResponseHeaderWrite :: "bool \<Rightarrow> ServerResponseMsg \<Rightarrow> (AssetClient, unit) action" where
  "handleResponseHeaderWrite error response =
     (if \<not> error then
        (case sr_data response of
           Some d \<Rightarrow>
             with_client (
               abind (socket (AsyncWrite d (HandleResponseDataWrite response))) (\<lambda>_.
               if 2 ^ 31 \<le> length d then araise BadNumericCast
               else abind (AddTransferToStats (int (length d))) (\<lambda>_.
                    on_auth (\<lambda>a. if ca_mesh a then AddMeshTransferToStats (int (length d)) else areturn ()))))
         | None \<Rightarrow> waitForRequest)
      else handleIoFailure)"

definition handleResponseDataWrite :: "bool \<Rightarrow> (AssetClient, unit) action" where
  "handleResponseDataWrite error = (if \<not> error then waitForRequest else handleIoFailure)"

section \<open>Connections before authentication\<close>

definition sendAuthChallenge :: "Env \<Rightarrow> (AssetClient, unit) action" where
  "sendAuthChallenge env =
     (let c = AuthChallengeMsg_new False (env_random env) in
      abind (on_unauth (\<lambda>u. setState (Unauthenticated (u\<lparr>cu_challenge := Some c\<rparr>)))) (\<lambda>_.
      with_client (socket (AsyncWrite (ac_data c) HandleWriteChallenge))))"

definition unauth_start :: "Env \<Rightarrow> (AssetClient, unit) action" where
  "unauth_start env = sendAuthChallenge env"

definition handleWriteChallenge :: "bool \<Rightarrow> (AssetClient, unit) action" where
  "handleWriteChallenge error =
     (if \<not> error then
        with_client (
          abind (on_unauth (\<lambda>u. setState (Unauthenticated (u\<lparr>cu_response := Some AuthResponseMsg_new\<rparr>)))) (\<lambda>_.
          socket (AsyncRead AuthResponse_SIZE HandleReadChallengeResponse)))
      else with_client disconnect)"

definition handleReadChallengeResponse :: "Env \<Rightarrow> bool \<Rightarrow> (AssetClient, unit) action" where
  "handleReadChallengeResponse env error =
     (if \<not> error then
        on_unauth (\<lambda>u.
          case (cu_response u, cu_challenge u) of
            (Some r, Some c) \<Rightarrow>
              abind (alift (isValid (env_password env) r c)) (\<lambda>ok.
              if ok then
                abind (setState (Unauthenticated (u\<lparr>cu_authStatus := Some (AuthStatusMsg_new AS_AUTH_SUCCESS)\<rparr>))) (\<lambda>_.
                with_client (
                  abind (alift (isServerResponse r)) (\<lambda>server.
                  abind (if server
                         then setState (Unauthenticated (u\<lparr>cu_authStatus := Some (AuthStatusMsg_new AS_AUTH_SUCCESS), cu_mesh := True\<rparr>))
                         else areturn ()) (\<lambda>_.
                  socket (AsyncWrite (as_data (AuthStatusMsg_new AS_AUTH_SUCCESS)) HandleWriteAuthSuccess)))))
              else
                abind (setState (Unauthenticated (u\<lparr>cu_authStatus := Some (AuthStatusMsg_new AS_AUTH_FAILURE)\<rparr>))) (\<lambda>_.
                with_client (socket (AsyncWrite (as_data (AuthStatusMsg_new AS_AUTH_FAILURE)) HandleWriteAuthFailure))))
          | _ \<Rightarrow> araise UndefinedBehaviour)
      else with_client disconnect)"

definition handleWriteAuthFailure :: "(AssetClient, unit) action" where
  "handleWriteAuthFailure = with_client disconnect"

definition handleWriteAuthSuccess :: "Env \<Rightarrow> (AssetClient, unit) action" where
  "handleWriteAuthSuccess env =
     with_client (on_unauth (\<lambda>u.
       abind (setState (Authenticated (CSAuthenticated_new (env_now env) (cu_mesh u)))) (\<lambda>_. auth_start)))"

definition client_start :: "Env \<Rightarrow> (AssetClient, unit) action" where
  "client_start env = abind (amodify (\<lambda>cl. cl\<lparr>cl_connected := True\<rparr>)) (\<lambda>_. unauth_start env)"

text \<open>\<open>elapsed\<close> is the printed time since the state last changed.\<close>

definition getStateDescription :: "string \<Rightarrow> IConnectionState \<Rightarrow> string result" where
  "getStateDescription elapsed st =
     (case st of
        Unauthenticated u \<Rightarrow> Inr ''Unauthenticated''
      | Authenticated a \<Rightarrow>
          if ca_active a then
            (let status = ''ACTIVE '' @ elapsed in
             case ca_request a of
               None \<Rightarrow> Inr status
             | Some r \<Rightarrow>
                 ebind (Request_getType r) (\<lambda>t.
                 if t = RT_GET then ebind (Request_getUUID r) (\<lambda>u. Inr (status @ '' [GET '' @ u @ '']''))
                 else if t = RT_PUT then ebind (Request_getUUID r) (\<lambda>u. Inr (status @ '' [PUT '' @ u @ '']''))
                 else Inr status))
          else Inr (''IDLE '' @ elapsed))"

section \<open>Completions\<close>

text \<open>
  An operation on the socket ends with an error or, a read, with its bytes in the buffer of the
  message it was started on.
\<close>

datatype completion =
    WriteDone bool
  | ReadFailed
  | ReadDone bytes
  | GetAnswer "Asset option" bool "exn option"
  | StoreAnswer bool "exn option"
  | PurgeAnswer bool "exn option"
  | StatusAnswer string string
  | IdsAnswer string
  | MeshAnswer string "Asset option"

definition fill :: "read_handler \<Rightarrow> bytes \<Rightarrow> (AssetClient, unit) action" where
  "fill h d =
     (case h of
        HandleReadChallengeResponse \<Rightarrow> on_unauth (\<lambda>u. setState (Unauthenticated (u\<lparr>cu_response := Some (AuthResponseMsg d)\<rparr>)))
      | HandleClientRequestHeaderRead \<Rightarrow> abind current_request (\<lambda>r. upd_auth (\<lambda>a. a\<lparr>ca_request := Some (r\<lparr>cr_header := d\<rparr>)\<rparr>))
      | HandleAssetDataRead \<Rightarrow> abind current_request (\<lambda>r. upd_auth (\<lambda>a. a\<lparr>ca_request := Some (r\<lparr>cr_data := Some d\<rparr>)\<rparr>)))"

definition write_done :: "Env \<Rightarrow> write_handler \<Rightarrow> bool \<Rightarrow> (AssetClient, unit) action" where
  "write_done env h error =
     (case h of
        HandleWriteChallenge \<Rightarrow> handleWriteChallenge error
      | HandleWriteAuthFailure \<Rightarrow> handleWriteAuthFailure
      | HandleWriteAuthSuccess \<Rightarrow> handleWriteAuthSuccess env
      | HandleResponseHeaderWrite r \<Rightarrow> handleResponseHeaderWrite error r
      | HandleResponseDataWrite r \<Rightarrow> handleResponseDataWrite error)"

definition read_done :: "Env \<Rightarrow> read_handler \<Rightarrow> bool \<Rightarrow> (AssetClient, unit) action" where
  "read_done env h error =
     (case h of
        HandleReadChallengeResponse \<Rightarrow> handleReadChallengeResponse env error
      | HandleClientRequestHeaderRead \<Rightarrow> handleClientRequestHeaderRead env error
      | HandleAssetDataRead \<Rightarrow> handleAssetDataRead error)"

text \<open>
  The first socket operation or storage call ends; a completion that fits neither changes nothing.
\<close>

definition client_step :: "Env \<Rightarrow> completion \<Rightarrow> (AssetClient, unit) action" where
  "client_step env e cl =
     (case (cl_ops cl, cl_calls cl, e) of
        (AsyncWrite d h # ops, _, WriteDone error) \<Rightarrow> write_done env h error (cl\<lparr>cl_ops := ops\<rparr>)
      | (AsyncRead n h # ops, _, ReadFailed) \<Rightarrow> read_done env h True (cl\<lparr>cl_ops := ops\<rparr>)
      | (AsyncRead n h # ops, _, ReadDone d) \<Rightarrow>
          if length d = n then abind (fill h d) (\<lambda>_. read_done env h False) (cl\<lparr>cl_ops := ops\<rparr>)
          else (Inr (), cl)
      | (_, StorageGet u f # cs, GetAnswer a ok err) \<Rightarrow> handleStorageGetResponse a ok err (cl\<lparr>cl_calls := cs\<rparr>)
      | (_, StorageStore a # cs, StoreAnswer ok err) \<Rightarrow> handleStorageWriteResponse ok err (cl\<lparr>cl_calls := cs\<rparr>)
      | (_, StoragePurge u # cs, PurgeAnswer ok err) \<Rightarrow> handleStoragePurgeResponse ok err (cl\<lparr>cl_calls := cs\<rparr>)
      | (_, StorageGetStatus t # cs, StatusAnswer t' m) \<Rightarrow> statusGetCompleted t' m (cl\<lparr>cl_calls := cs\<rparr>)
      | (_, StorageGetIds p # cs, IdsAnswer t) \<Rightarrow> storedAssetIdsGetCompleted t (cl\<lparr>cl_calls := cs\<rparr>)
      | (_, MeshGet u # cs, MeshAnswer u' a) \<Rightarrow> handleIntrameshGetResponse u' a (cl\<lparr>cl_calls := cs\<rparr>)
      | _ \<Rightarrow> (Inr (), cl))"

end
