(* ===== verification/Sessions.thy ===== *)
theory Sessions
  imports Connection
begin

text \<open>
  What the connections promise.  At most one operation is pending at a time and its handler fits the
  state the connection is in; nothing is asked of the storage before the peer has answered the
  challenge; a get is answered with the bytes of the asset.  The lemmas go handler by handler:
  started with nothing pending, each leaves the connection in order.
\<close>

section \<open>What is pending on a connection\<close>

text \<open>The states in which a handler of an authenticated connection starts: nothing is pending.\<close>

definition idle_auth :: "AssetClient \<Rightarrow> bool" where
  "idle_auth cl \<longleftrightarrow> cl_ops cl = [] \<and> cl_calls cl = []
     \<and> (\<exists>a r. cl_state cl = Authenticated a \<and> ca_request a = Some r \<and> length (cr_header r) = HEADER_SIZE)"

fun auth_op :: "socket_op \<Rightarrow> bool" where
  "auth_op (AsyncRead n HandleClientRequestHeaderRead) \<longleftrightarrow> n = HEADER_SIZE"
| "auth_op (AsyncRead n HandleAssetDataRead) \<longleftrightarrow> True"
| "auth_op (AsyncWrite d (HandleResponseHeaderWrite r)) \<longleftrightarrow> True"
| "auth_op (AsyncWrite d (HandleResponseDataWrite r)) \<longleftrightarrow> True"
| "auth_op _ \<longleftrightarrow> False"

text \<open>
  A socket operation of a connection that is not authenticated; \<open>valid\<close> says whether a valid response
  to the challenge has been read.
\<close>

fun unauth_op :: "AuthChallengeMsg \<Rightarrow> bool \<Rightarrow> CSUnauthenticated \<Rightarrow> socket_op \<Rightarrow> bool" where
  "unauth_op c valid u (AsyncWrite d HandleWriteChallenge) \<longleftrightarrow> cu_challenge u = Some c"
| "unauth_op c valid u (AsyncRead n HandleReadChallengeResponse) \<longleftrightarrow> cu_challenge u = Some c \<and> n = AuthResponse_SIZE"
| "unauth_op c valid u (AsyncWrite d HandleWriteAuthFailure) \<longleftrightarrow> True"
| "unauth_op c valid u (AsyncWrite d HandleWriteAuthSuccess) \<longleftrightarrow> valid"
| "unauth_op c valid u _ \<longleftrightarrow> False"

definition conn_ok :: "AuthChallengeMsg \<Rightarrow> bool \<Rightarrow> AssetClient \<Rightarrow> bool" where
  "conn_ok c valid cl \<longleftrightarrow> length (cl_ops cl) + length (cl_calls cl) \<le> 1
     \<and> (case cl_state cl of
          Unauthenticated u \<Rightarrow> cl_calls cl = [] \<and> cl_purges cl = 0 \<and> list_all (unauth_op c valid u) (cl_ops cl)
        | Authenticated a \<Rightarrow> valid \<and> idle_auth (cl\<lparr>cl_ops := [], cl_calls := []\<rparr>) \<and> list_all auth_op (cl_ops cl))"

text \<open>An action that leaves the connection in order and, if \<open>b\<close>, reaches no undefined behaviour.\<close>

definition fine :: "bool \<Rightarrow> (AssetClient, 'a) action \<Rightarrow> AssetClient \<Rightarrow> bool" where
  "fine b m cl \<longleftrightarrow> (b \<longrightarrow> fst (m cl) \<noteq> Inl UndefinedBehaviour) \<and> (\<forall>c. conn_ok c True (snd (m cl)))"

lemma idle_authE:
  assumes "idle_auth cl"
  obtains a r where "cl_ops cl = []" "cl_calls cl = []" "cl_state cl = Authenticated a" "ca_request a = Some r"
    "length (cr_header r) = HEADER_SIZE"
  using assms unfolding idle_auth_def by blast

lemma idle_request:
  assumes "idle_auth cl"
  shows "\<exists>r u n. current_request cl = (Inr r, cl) \<and> request_uuid cl = (Inr u, cl) \<and> length u = 32
    \<and> Request_getUUID r = Inr u \<and> getDataSize r = Inr n"
  using assms
  by (elim idle_authE)
    (simp add: current_request_def on_auth_def request_uuid_def abind_def Request_getUUID_def read_string_def getDataSize_def
      peek32_def layout)

lemma conn_ok_idle: "idle_auth cl \<Longrightarrow> conn_ok c True cl"
  by (auto simp: conn_ok_def idle_auth_def)

lemma message_total:
  assumes "length u = 32"
  shows "\<exists>m. ServerResponseMsg_code code u = Inr m" "ServerResponseMsg_data code u d \<noteq> Inl UndefinedBehaviour"
    "ServerResponseMsg_text code u t \<noteq> Inl UndefinedBehaviour"
  using assms setupHeader_run [of u]
  by (auto simp: ServerResponseMsg_code_def ServerResponseMsg_text_def ServerResponseMsg_data_def numeric_cast_u32_def)

lemma fine_pure: "idle_auth cl \<Longrightarrow> fine b (areturn x) cl" "idle_auth cl \<Longrightarrow> (b \<Longrightarrow> e \<noteq> UndefinedBehaviour) \<Longrightarrow> fine b (araise e) cl"
  "idle_auth cl \<Longrightarrow> fine b disconnect cl" "idle_auth cl \<Longrightarrow> auth_op op \<Longrightarrow> fine b (socket op) cl" "idle_auth cl \<Longrightarrow> fine b (call k) cl"
  by (auto simp: fine_def conn_ok_def idle_auth_def disconnect_def socket_def call_def)

lemma fine_with_client: "idle_auth cl \<Longrightarrow> (cl_connected cl \<Longrightarrow> fine b m cl) \<Longrightarrow> fine b (with_client m) cl"
  by (auto simp: with_client_def fine_def conn_ok_idle)

lemma fine_bind:
  assumes "m cl = (Inr x, cl')" and "fine b (f x) cl'"
  shows "fine b (abind m f) cl"
  using assms by (simp add: fine_def abind_def)

lemma fine_lift:
  assumes "idle_auth cl" and "b \<Longrightarrow> r \<noteq> Inl UndefinedBehaviour" and "\<And>x. r = Inr x \<Longrightarrow> fine b (f x) cl"
  shows "fine b (abind (alift r) f) cl"
  using assms by (cases r) (auto simp: fine_def abind_def conn_ok_idle)

lemma sendResponse_fine: "idle_auth cl \<Longrightarrow> fine b (sendResponse r) cl"
  unfolding sendResponse_def by (intro fine_with_client fine_pure) simp_all

lemma respond_code_fine: "idle_auth cl \<Longrightarrow> fine b (abind request_uuid (\<lambda>u. abind (alift (ServerResponseMsg_code k u)) sendResponse)) cl"
  using idle_request [of cl] message_total(1)
  by (metis fine_bind fine_lift sendResponse_fine sum.distinct(1))

lemma sendError_fine: "idle_auth cl \<Longrightarrow> fine b (sendError m) cl"
  unfolding sendError_def using idle_request [of cl] message_total(3)
  by (metis fine_bind fine_lift sendResponse_fine)

lemma or_error_fine:
  assumes "\<And>e cl'. m cl = (Inl e, cl') \<Longrightarrow> e \<noteq> UndefinedBehaviour \<Longrightarrow> idle_auth cl'" and "fine b m cl"
  shows "fine b (or_error m) cl"
proof (cases "m cl")
  case (Pair r cl')
  show ?thesis
  proof (cases r)
    case (Inl e)
    show ?thesis
    proof (cases "e = UndefinedBehaviour")
      case False
      with assms(1) Pair Inl have "idle_auth cl'" by simp
      from sendError_fine [OF this] False Pair Inl show ?thesis by (simp add: fine_def or_error_def acatch_def)
    qed (use assms(2) Pair Inl in \<open>simp add: fine_def or_error_def acatch_def\<close>)
  qed (use assms(2) Pair in \<open>simp add: fine_def or_error_def acatch_def\<close>)
qed

lemma valid_uuid_run:
  assumes "idle_auth cl"
  shows "\<exists>u. length u = 32 \<and> valid_uuid cl = (if IsValidUUID u then Inr u else Inl (RuntimeError (''Invalid asset UUID: '' @ u)), cl)"
  using idle_request [OF assms] by (auto simp: valid_uuid_def abind_def)

lemma handleGetRequest_fine: "idle_auth cl \<Longrightarrow> fine b (handleGetRequest cached) cl"
  unfolding handleGetRequest_def using valid_uuid_run [of cl]
  by (intro or_error_fine) (auto simp: abind_def fine_def conn_ok_def idle_auth_def call_def split: if_splits)

lemma handlePurgeRequest_fine: "idle_auth cl \<Longrightarrow> fine b handlePurgeRequest cl"
  unfolding handlePurgeRequest_def using valid_uuid_run [of cl]
  by (intro or_error_fine) (auto simp: abind_def fine_def conn_ok_def idle_auth_def call_def split: if_splits)

text \<open>The counters of transferred kilobytes: single precision at most doubles a number.\<close>

lemma pow2_pos [simp]: "0 < pow2 e"
  by (simp add: pow2_def)

lemma round_even_less: "of_int (round_even x) \<le> x + 1"
proof -
  have "of_int (round_even x) \<le> (of_int \<lfloor>x\<rfloor> :: rat) + 1" by (simp add: round_even_def Let_def)
  then show ?thesis using of_int_floor_le [of x] by linarith
qed

lemma head_filter: "filter P xs = e # es \<Longrightarrow> P e \<and> e \<in> set xs"
  by (induction xs) (auto split: if_splits)

lemma binary_exponent_le:
  assumes "0 \<le> x"
  shows "pow2 (max (binary_exponent x - 23) (- 149)) \<le> x + 1"
proof (cases "filter (\<lambda>e. pow2 e \<le> x \<and> x < pow2 (e + 1)) [-149..127]")
  case Nil
  have "pow2 (- 149) \<le> 1" by (simp add: pow2_def)
  with Nil assms show ?thesis by (simp add: binary_exponent_def)
next
  case (Cons e es)
  from head_filter [OF this] have e: "pow2 e \<le> x" "-149 \<le> e" unfolding set_upto atLeastAtMost_iff by blast+
  have "pow2 a \<le> pow2 b" if "a \<le> b" for a b
  proof (cases "0 \<le> a")
    case True
    then show ?thesis using that by (simp add: pow2_def power_increasing nat_mono)
  next
    case False
    have "1 \<le> (2 :: rat) ^ n" for n by simp
    then have "1 \<le> (2 :: rat) ^ nat b * 2 ^ nat (- a)" by (simp flip: power_add)
    moreover have "(2 :: rat) ^ nat (- b) \<le> 2 ^ nat (- a)" using that by (intro power_increasing) simp_all
    ultimately show ?thesis using False
      by (auto simp: pow2_def divide_simps intro: order_trans)
  qed
  from this [of "max (e - 23) (- 149)" e] have "pow2 (max (e - 23) (- 149)) \<le> pow2 e" using e(2) by simp
  with e(1) show ?thesis using Cons by (simp add: binary_exponent_def)
qed

lemma float32_bound:
  assumes "0 \<le> x"
  shows "0 \<le> float32 x \<and> float32 x \<le> 2 * x + 1"
proof (cases "x = 0")
  case False
  let ?q = "pow2 (max (binary_exponent x - 23) (- 149))"
  have x: "float32 x = of_int (round_even (x / ?q)) * ?q" using assms False by (simp add: float32_def Let_def)
  have "0 \<le> x / ?q" using assms pow2_pos by (intro divide_nonneg_pos) simp_all
  then have "0 \<le> \<lfloor>x / ?q\<rfloor>" by simp
  then have "0 \<le> round_even (x / ?q)" by (auto simp: round_even_def Let_def simp del: zero_le_floor)
  then have "0 \<le> float32 x" unfolding x by (simp add: less_imp_le)
  moreover have "float32 x \<le> (x / ?q + 1) * ?q" unfolding x by (intro mult_right_mono round_even_less) (simp add: less_imp_le)
  moreover have "(x / ?q + 1) * ?q = x + ?q"
    using less_imp_neq [OF pow2_pos [of "max (binary_exponent x - 23) (- 149)"]] by (simp add: distrib_right)
  ultimately show ?thesis using binary_exponent_le [OF assms] by linarith
qed (simp add: float32_def)

lemma transfer_kb_bound:
  assumes "n < 2 ^ 31"
  shows "0 \<le> transfer_kb n \<and> transfer_kb n \<le> 2 ^ 25"
proof (cases "n < 1000")
  case False
  let ?F = "float32 (of_int n)" let ?G = "float32 (?F / 1000)" let ?H = "float32 (?G + 1 / 2)"
  have n: "0 \<le> rat_of_int n" "rat_of_int n \<le> 2147483648" using False assms by simp_all
  have F: "0 \<le> ?F" "?F \<le> 4294967297" using float32_bound [OF n(1)] n(2) by linarith+
  then have "0 \<le> ?F / 1000" "?F / 1000 \<le> 4294968" by linarith+
  then have G: "0 \<le> ?G" "?G \<le> 8589937" using float32_bound [of "?F / 1000"] by linarith+
  define g where "g = ?G + 1 / 2"
  have "0 \<le> g" "2 * g + 1 \<le> 17179876" using G by (simp_all add: g_def)
  with float32_bound [of g] have "0 \<le> ?H \<and> ?H \<le> 17179876" unfolding g_def by (blast intro: order_trans)
  then show ?thesis using False by (simp add: transfer_kb_def)
qed (simp add: transfer_kb_def)
section \<open>Every handler leaves at most one operation pending\<close>

definition stats_small :: "AssetClient \<Rightarrow> bool" where
  "stats_small cl \<longleftrightarrow> 0 \<le> reqSinceLastPoll (cl_stats cl) \<and> reqSinceLastPoll (cl_stats cl) \<le> 2 ^ 30
     \<and> 0 \<le> kbTransferredSinceLastPoll (cl_stats cl) \<and> kbTransferredSinceLastPoll (cl_stats cl) \<le> 2 ^ 30
     \<and> 0 \<le> meshKbTransferredSinceLastPoll (cl_stats cl) \<and> meshKbTransferredSinceLastPoll (cl_stats cl) \<le> 2 ^ 30"

lemma conn_ok_stats: "conn_ok c v (cl\<lparr>cl_stats := x\<rparr>) = conn_ok c v cl"
  by (auto simp: conn_ok_def idle_auth_def split: IConnectionState.splits)

lemma stat_conn_ok: "conn_ok c v (snd (stat f cl)) = conn_ok c v cl"
  by (auto simp: stat_def conn_ok_stats split: sum.splits)

lemma add_stats_ok:
  assumes "stats_small cl" and "n < 2 ^ 31"
  shows "fst (AddRequestToStats cl) = Inr ()" "fst (AddTransferToStats n cl) = Inr ()" "fst (AddMeshTransferToStats n cl) = Inr ()"
  using assms(1) transfer_kb_bound [OF assms(2)]
  by (simp_all add: stats_small_def AddRequestToStats_def AddTransferToStats_def AddMeshTransferToStats_def stat_def add_int_def)

lemma to_int_bound: "to_int i < 2 ^ 31"
  using sint_lt [of "word_of_int i :: 32 word"] by (simp add: to_int_def)

lemma handleStorageGetResponse_fine:
  assumes "idle_auth cl" and "b \<Longrightarrow> ok \<Longrightarrow> \<exists>x. a = Some x \<and> 32 \<le> length (getData x)"
  shows "fine b (handleStorageGetResponse a ok err) cl"
proof -
  obtain r u where u: "request_uuid cl = (Inr u, cl)" "length u = 32" using idle_request [OF assms(1)] by blast
  show ?thesis
  proof (cases ok)
    case True
    show ?thesis
    proof (cases a)
      case None
      with True assms show ?thesis by (auto simp: handleStorageGetResponse_def intro!: fine_pure)
    next
      case (Some x)
      show ?thesis unfolding handleStorageGetResponse_def using True Some assms message_total(2)
        by (auto intro!: fine_lift sendResponse_fine simp: Asset_getUUID_def read_string_def)
    qed
  next
    case False
    have "fine b (abind request_uuid (\<lambda>u. call (MeshGet u))) cl" by (rule fine_bind [where cl' = cl and x = u]) (simp_all add: u fine_pure(5) [OF assms(1)])
    with False respond_code_fine [OF assms(1)] assms(1) show ?thesis
      by (elim idle_authE) (auto simp: handleStorageGetResponse_def on_auth_def fine_def)
  qed
qed

lemma handleIntrameshGetResponse_fine:
  assumes "idle_auth cl" and "b \<Longrightarrow> length u = 32" and "\<And>x. b \<Longrightarrow> a = Some x \<Longrightarrow> 32 \<le> length (getData x)"
  shows "fine b (handleIntrameshGetResponse u a) cl"
  unfolding handleIntrameshGetResponse_def using assms message_total
  by (cases a) (auto intro!: fine_lift sendResponse_fine simp: Asset_getUUID_def read_string_def; metis sum.distinct(1))+

lemma failure_fine:
  assumes "idle_auth cl" and "b \<Longrightarrow> \<not> ok \<Longrightarrow> err \<noteq> None"
  shows "fine b (if ok then abind request_uuid (\<lambda>u. abind (alift (ServerResponseMsg_code RC_OK u)) sendResponse)
    else (case err of None \<Rightarrow> araise UndefinedBehaviour | Some e \<Rightarrow> sendError (what e))) cl"
  using assms by (cases err) (auto intro!: respond_code_fine sendError_fine fine_pure)

lemma handleStoragePurgeResponse_fine:
  "idle_auth cl \<Longrightarrow> (b \<Longrightarrow> \<not> ok \<Longrightarrow> err \<noteq> None) \<Longrightarrow> fine b (handleStoragePurgeResponse ok err) cl"
  unfolding handleStoragePurgeResponse_def by (rule failure_fine)

lemma sendResponse_keeps: "cl_state (snd (sendResponse r cl)) = cl_state cl \<and> cl_stats (snd (sendResponse r cl)) = cl_stats cl"
  by (simp add: sendResponse_def with_client_def socket_def)

lemma sendResponse_returns [simp]: "fst (sendResponse r cl) = Inr ()" "sendResponse r cl \<noteq> (Inl e, cl')"
  by (simp_all add: sendResponse_def with_client_def socket_def)

lemma upd_auth_idle:
  assumes "idle_auth cl" and "\<And>a. ca_request (f a) = ca_request a"
  shows "\<exists>cl'. upd_auth f cl = (Inr (), cl') \<and> idle_auth cl' \<and> cl_stats cl' = cl_stats cl"
  using assms by (elim idle_authE) (simp add: upd_auth_def on_auth_def setState_def idle_auth_def)

lemma respond_keeps:
  assumes "idle_auth cl"
  shows "cl_state (snd (abind request_uuid (\<lambda>u. abind (alift (f u)) sendResponse) cl)) = cl_state cl
    \<and> cl_stats (snd (abind request_uuid (\<lambda>u. abind (alift (f u)) sendResponse) cl)) = cl_stats cl"
  using idle_request [OF assms] sendResponse_keeps by (auto simp: abind_def split: sum.splits)

lemma handleStorageWriteResponse_fine:
  assumes "idle_auth cl" and "b \<Longrightarrow> \<not> ok \<Longrightarrow> err \<noteq> None" and "b \<Longrightarrow> stats_small cl"
  shows "fine b (handleStorageWriteResponse ok err) cl"
proof -
  let ?m = "if ok then abind request_uuid (\<lambda>u. abind (alift (ServerResponseMsg_code RC_OK u)) sendResponse)
    else (case err of None \<Rightarrow> araise UndefinedBehaviour | Some e \<Rightarrow> sendError (what e))"
  obtain x cl' where m: "?m cl = (x, cl')" by (cases "?m cl")
  have "fine b ?m cl" by (rule failure_fine [OF assms(1)]) (rule assms(2))
  then have f: "b \<longrightarrow> x \<noteq> Inl UndefinedBehaviour" "\<And>c. conn_ok c True cl'"
    unfolding fine_def m fst_conv snd_conv by blast+
  have "cl_state cl' = cl_state cl \<and> cl_stats cl' = cl_stats cl"
  proof -
    have "cl_state (snd (?m cl)) = cl_state cl \<and> cl_stats (snd (?m cl)) = cl_stats cl"
      using respond_keeps [OF assms(1)] by (cases ok; cases err) (simp_all add: sendError_def)
    then show ?thesis unfolding m by simp
  qed
  then obtain r n where r: "current_request cl' = (Inr r, cl')" "getDataSize r = Inr n" "b \<Longrightarrow> stats_small cl'"
    using idle_request [OF assms(1)] assms(1,3)
    by (elim idle_authE) (auto simp: current_request_def on_auth_def stats_small_def)
  let ?add = "AddTransferToStats (to_int (uint n))"
  have "handleStorageWriteResponse ok err cl = (case x of Inl e \<Rightarrow> (Inl e, cl') | Inr _ \<Rightarrow> ?add cl')"
    unfolding handleStorageWriteResponse_def abind_def m using r(1,2) by (simp add: sum.case_distrib split: sum.split)
  moreover have "b \<Longrightarrow> fst (?add cl') = Inr ()" "conn_ok c True (snd (?add cl'))" for c
    using add_stats_ok(2) [OF r(3) to_int_bound] f(2) stat_conn_ok by (auto simp: AddTransferToStats_def)
  ultimately show ?thesis using f by (cases x) (simp_all add: fine_def)
qed

lemma handlePutRequest_fine: "idle_auth cl \<Longrightarrow> fine b handlePutRequest cl"
  by (elim idle_authE)
    (simp add: handlePutRequest_def current_request_def on_auth_def upd_auth_def setState_def abind_def initDataStorageFromHeader_def getDataSize_def
      peek32_def layout fine_def with_client_def socket_def conn_ok_def idle_auth_def)

lemma null_uuid_length [simp]: "length null_uuid = 32"
  by (simp add: null_uuid_def)

lemma handleIoFailure_fine: "idle_auth cl \<Longrightarrow> fine b handleIoFailure cl"
  unfolding handleIoFailure_def by (intro fine_with_client fine_pure)

lemma handleAssetDataRead_fine:
  assumes "idle_auth cl" and "b \<Longrightarrow> \<not> error \<Longrightarrow> (\<exists>r d. current_request cl = (Inr r, cl) \<and> cr_data r = Some d \<and> 32 \<le> length d)"
  shows "fine b (handleAssetDataRead error) cl"
proof (cases error)
  case True
  then show ?thesis using handleIoFailure_fine [OF assms(1)] by (simp add: handleAssetDataRead_def)
next
  case False
  obtain r h where r: "current_request cl = (Inr r, cl)" "Request_getUUID r = Inr h" using idle_request [OF assms(1)] by blast
  show ?thesis
  proof (cases "cr_data r")
    case None
    then show ?thesis using False r assms conn_ok_idle [OF assms(1)]
      by (auto simp: handleAssetDataRead_def or_error_def acatch_def fine_def abind_def)
  next
    case (Some d)
    let ?u = "string_of_bytes (take 32 d)" and ?t = "''Invalid asset UUID: '' @ h"
    have run: "handleAssetDataRead error cl = or_error (if 32 \<le> length d then
        if IsValidUUID ?u then call (StorageStore (Asset d)) else araise (RuntimeError ?t)
      else araise UndefinedBehaviour) cl"
      using False Some r by (simp add: handleAssetDataRead_def or_error_def acatch_def abind_def Asset_getUUID_def read_string_def)
    have "fine b (or_error (if 32 \<le> length d then
        if IsValidUUID ?u then call (StorageStore (Asset d)) else araise (RuntimeError ?t)
      else araise UndefinedBehaviour)) cl"
      using assms False Some r(1) fine_pure(2,5) [OF assms(1)]
      by (intro or_error_fine) (auto simp: call_def split: if_splits)
    then show ?thesis unfolding fine_def run .
  qed
qed

lemma handleTestRequest_fine:
  assumes "idle_auth cl" and "\<And>u. b \<Longrightarrow> ex u \<noteq> Inl UndefinedBehaviour"
  shows "fine b (handleTestRequest ex) cl"
proof -
  obtain u where u: "length u = 32" "valid_uuid cl = (if IsValidUUID u then Inr u else Inl (RuntimeError (''Invalid asset UUID: '' @ u)), cl)"
    using valid_uuid_run [OF assms(1)] by blast
  obtain m1 m2 where m: "ServerResponseMsg_code RC_FOUND u = Inr m1" "ServerResponseMsg_code RC_NOTFOUND u = Inr m2"
    using message_total(1) [OF u(1)] by metis
  show ?thesis
    unfolding handleTestRequest_def using u(2) m assms sendResponse_fine [OF assms(1), of b] conn_ok_idle [OF assms(1)]
    by (intro or_error_fine) (auto simp: abind_def fine_def split: if_splits sum.splits)
qed

lemma handlePurgeLocals_fine: "idle_auth cl \<Longrightarrow> fine b handlePurgeLocals cl"
proof -
  assume "idle_auth cl"
  then have i: "idle_auth (cl\<lparr>cl_purges := Suc (cl_purges cl)\<rparr>)" by (simp add: idle_auth_def)
  show ?thesis
    unfolding handlePurgeLocals_def using i message_total(1) [OF null_uuid_length, of RC_OK] sendResponse_fine [OF i, of b]
    by (intro or_error_fine) (auto simp: abind_def fine_def split: if_splits sum.splits)
qed

lemma handleStatusGet_fine: "idle_auth cl \<Longrightarrow> fine b (handleStatusGet t) cl"
  by (elim idle_authE)
    (simp add: handleStatusGet_def on_auth_def upd_auth_def setState_def abind_def Let_def
      fine_def with_client_def call_def conn_ok_def idle_auth_def)

lemma statusGetCompleted_fine: "idle_auth cl \<Longrightarrow> fine b (statusGetCompleted t m) cl"
proof -
  assume i: "idle_auth cl"
  obtain cl' where "upd_auth (\<lambda>a. a\<lparr>ca_status := None\<rparr>) cl = (Inr (), cl')" "idle_auth cl'"
    using upd_auth_idle [OF i, of "\<lambda>a. a\<lparr>ca_status := None\<rparr>"] by auto
  then show ?thesis
    unfolding statusGetCompleted_def using message_total(3) [OF null_uuid_length]
    by (intro fine_lift [OF i] fine_bind sendResponse_fine) simp_all
qed

lemma storedAssetIdsGetCompleted_fine: "idle_auth cl \<Longrightarrow> fine b (storedAssetIdsGetCompleted t) cl"
proof -
  assume i: "idle_auth cl"
  obtain cl' where "upd_auth (\<lambda>a. a\<lparr>ca_ids := None\<rparr>) cl = (Inr (), cl')" "idle_auth cl'"
    using upd_auth_idle [OF i, of "\<lambda>a. a\<lparr>ca_ids := None\<rparr>"] by auto
  then show ?thesis
    unfolding storedAssetIdsGetCompleted_def using message_total(3) [OF null_uuid_length]
    by (intro fine_lift [OF i] fine_bind sendResponse_fine) simp_all
qed

lemma handleStoredAssetIdsGet_fine: "idle_auth cl \<Longrightarrow> fine b handleStoredAssetIdsGet cl"
  by (elim idle_authE)
    (simp add: handleStoredAssetIdsGet_def on_auth_def upd_auth_def setState_def abind_def request_uuid_def current_request_def Request_getUUID_def
      read_string_def layout fine_def with_client_def call_def conn_ok_def idle_auth_def)

lemma waitForRequest_fine: "cl_ops cl = [] \<Longrightarrow> cl_calls cl = [] \<Longrightarrow> cl_state cl = Authenticated a \<Longrightarrow> fine b waitForRequest cl"
  by (simp add: waitForRequest_def on_auth_def upd_auth_def setState_def abind_def ClientRequestMsg_new_def fine_def with_client_def socket_def
      conn_ok_def idle_auth_def layout)


lemma handleResponseHeaderWrite_fine:
  assumes "idle_auth cl" and "b \<Longrightarrow> stats_small cl"
  shows "fine b (handleResponseHeaderWrite error r) cl"
proof (cases error)
  case True
  then show ?thesis using handleIoFailure_fine [OF assms(1)] by (simp add: handleResponseHeaderWrite_def)
next
  case False
  note e = False
  show ?thesis
  proof (cases "sr_data r")
    case None
    with False assms(1) show ?thesis
      by (elim idle_authE) (simp add: handleResponseHeaderWrite_def waitForRequest_fine)
  next
    case (Some d)
    let ?cl = "cl\<lparr>cl_ops := [AsyncWrite d (HandleResponseDataWrite r)]\<rparr>"
    have s: "socket (AsyncWrite d (HandleResponseDataWrite r)) cl = (Inr (), ?cl)" "\<And>c. conn_ok c True ?cl"
      using assms(1) by (auto simp: socket_def idle_auth_def conn_ok_def)
    have "fine b (abind (socket (AsyncWrite d (HandleResponseDataWrite r))) (\<lambda>_.
               if 2 ^ 31 \<le> length d then araise BadNumericCast
               else abind (AddTransferToStats (int (length d))) (\<lambda>_.
                    on_auth (\<lambda>a. if ca_mesh a then AddMeshTransferToStats (int (length d)) else areturn ())))) cl"
    proof (cases "2 ^ 31 \<le> length d")
      case True
      then show ?thesis using s by (simp add: fine_def abind_def)
    next
      case False
      then have n: "int (length d) < 2 ^ 31" by simp
      obtain a where a: "cl_state cl = Authenticated a" using assms(1) by (elim idle_authE)
      have "fst (abind (AddTransferToStats (int (length d))) (\<lambda>_.
          on_auth (\<lambda>a. if ca_mesh a then AddMeshTransferToStats (int (length d)) else areturn ())) ?cl) = Inr ()" if b
        using assms(2) [OF that] transfer_kb_bound [OF n] a
        by (simp add: stats_small_def AddTransferToStats_def AddMeshTransferToStats_def stat_def add_int_def on_auth_def abind_def)
      moreover have "conn_ok c True (snd (abind (AddTransferToStats (int (length d))) (\<lambda>_.
          on_auth (\<lambda>a. if ca_mesh a then AddMeshTransferToStats (int (length d)) else areturn ())) ?cl))" for c
        using s(2) [of c] a
        by (simp add: AddTransferToStats_def AddMeshTransferToStats_def stat_def add_int_def on_auth_def abind_def conn_ok_stats)
      ultimately show ?thesis using False s(1) by (simp add: fine_def abind_run)
    qed
    with e Some show ?thesis using fine_with_client [OF assms(1)] by (simp add: handleResponseHeaderWrite_def)
  qed
qed

lemma handle_request_fine:
  assumes "idle_auth cl" and "\<And>u. b \<Longrightarrow> env_exists env u \<noteq> Inl UndefinedBehaviour"
  shows "fine b (handle_request env t) cl"
  using assms handleGetRequest_fine handlePurgeRequest_fine handlePutRequest_fine handleTestRequest_fine handlePurgeLocals_fine
    handleStatusGet_fine handleStoredAssetIdsGet_fine
  by (cases t) (simp_all add: handle_request_def)

lemma fine_or_disconnect:
  assumes "fine b m cl"
  shows "fine b (acatch m (\<lambda>e. with_client disconnect)) cl"
proof -
  have "conn_ok c v (snd (with_client disconnect cl')) = conn_ok c v cl'" "fst (with_client disconnect cl') = Inr ()" for c v cl'
    by (auto simp: with_client_def disconnect_def conn_ok_def idle_auth_def split: IConnectionState.splits)
  then show ?thesis using assms by (auto simp: fine_def acatch_def split: prod.splits sum.splits)
qed

lemma AddRequest_fine:
  assumes "idle_auth cl" and "b \<Longrightarrow> stats_small cl" and "\<And>cl'. idle_auth cl' \<Longrightarrow> fine b (f ()) cl'"
  shows "fine b (abind AddRequestToStats f) cl"
proof (cases "2 ^ 31 \<le> reqSinceLastPoll (cl_stats cl) + 1 \<or> reqSinceLastPoll (cl_stats cl) + 1 < - (2 ^ 31)")
  case True
  then have "AddRequestToStats cl = (Inl UndefinedBehaviour, cl)" by (auto simp: AddRequestToStats_def stat_def add_int_def)
  moreover have "\<not> b" using True assms(2) by (auto simp: stats_small_def)
  ultimately show ?thesis using conn_ok_idle [OF assms(1)] by (simp add: fine_def abind_def)
next
  case False
  then obtain st where "AddRequestToStats cl = (Inr (), cl\<lparr>cl_stats := st\<rparr>)" by (auto simp: AddRequestToStats_def stat_def add_int_def)
  moreover have "idle_auth (cl\<lparr>cl_stats := st\<rparr>)" using assms(1) by (simp add: idle_auth_def)
  ultimately show ?thesis using assms(3) by (auto intro: fine_bind)
qed

lemma handleClientRequestHeaderRead_fine:
  assumes "idle_auth cl" and "\<And>u. b \<Longrightarrow> env_exists env u \<noteq> Inl UndefinedBehaviour" and "b \<Longrightarrow> stats_small cl"
  shows "fine b (handleClientRequestHeaderRead env error) cl"
proof (cases error)
  case True
  then show ?thesis using handleIoFailure_fine [OF assms(1)] by (simp add: handleClientRequestHeaderRead_def)
next
  case False
  have "fine b (abind (upd_auth (\<lambda>a. a\<lparr>ca_active := True, ca_since := env_now env\<rparr>)) (\<lambda>_.
      abind current_request (\<lambda>r. abind (alift (Request_getType r)) (handle_request env)))) cl'" if i: "idle_auth cl'" for cl'
  proof -
    obtain cl2 where c2: "upd_auth (\<lambda>a. a\<lparr>ca_active := True, ca_since := env_now env\<rparr>) cl' = (Inr (), cl2)" "idle_auth cl2"
      using upd_auth_idle [OF i, of "\<lambda>a. a\<lparr>ca_active := True, ca_since := env_now env\<rparr>"] by auto
    obtain r where r: "current_request cl2 = (Inr r, cl2)" using idle_request [OF c2(2)] by blast
    have "fine b (abind (alift (Request_getType r)) (handle_request env)) cl2"
      by (intro fine_lift [OF c2(2)] handle_request_fine [OF c2(2) assms(2)]) (auto simp: Request_getType_def split: if_splits)
    then show ?thesis using c2(1) r by (simp add: fine_def abind_run)
  qed
  then show ?thesis
    using False fine_or_disconnect [OF AddRequest_fine [OF assms(1,3)]] by (simp add: handleClientRequestHeaderRead_def)
qed

section \<open>Steps of a connection\<close>

text \<open>The answers a peer, the storage and the mesh owe a connection.\<close>

definition completion_ok :: "AssetClient \<Rightarrow> completion \<Rightarrow> bool" where
  "completion_ok cl e \<longleftrightarrow> stats_small cl \<and>
     (case e of
        ReadDone d \<Rightarrow> \<forall>n. cl_ops cl = [AsyncRead n HandleAssetDataRead] \<longrightarrow> 32 \<le> length d
      | GetAnswer a ok err \<Rightarrow> ok \<longrightarrow> (\<exists>x. a = Some x \<and> 32 \<le> length (getData x))
      | StoreAnswer ok err \<Rightarrow> \<not> ok \<longrightarrow> err \<noteq> None
      | PurgeAnswer ok err \<Rightarrow> \<not> ok \<longrightarrow> err \<noteq> None
      | MeshAnswer u a \<Rightarrow> length u = 32 \<and> (\<forall>x. a = Some x \<longrightarrow> 32 \<le> length (getData x))
      | _ \<Rightarrow> True)"

lemma write_done_fine:
  assumes "idle_auth cl" and "auth_op (AsyncWrite d h)" and "b \<Longrightarrow> stats_small cl"
  shows "fine b (write_done env h error) cl"
proof (cases h)
  case (HandleResponseHeaderWrite r)
  then show ?thesis using handleResponseHeaderWrite_fine [OF assms(1,3)] by (simp add: write_done_def)
next
  case (HandleResponseDataWrite r)
  obtain a where "cl_state cl = Authenticated a" using assms(1) by (elim idle_authE)
  then show ?thesis
    using HandleResponseDataWrite assms(1) handleIoFailure_fine [OF assms(1)] waitForRequest_fine [of cl a]
    by (simp add: write_done_def handleResponseDataWrite_def idle_auth_def)
qed (use assms(2) in auto)

lemma read_failed_fine: "idle_auth cl \<Longrightarrow> auth_op (AsyncRead n h) \<Longrightarrow> fine b (read_done env h True) cl"
  using handleIoFailure_fine
  by (cases h) (simp_all add: read_done_def handleClientRequestHeaderRead_def handleAssetDataRead_def)

lemma read_done_fine:
  assumes "idle_auth cl" and "auth_op (AsyncRead (length d) h)" and "b \<Longrightarrow> stats_small cl"
    and "\<And>u. b \<Longrightarrow> env_exists env u \<noteq> Inl UndefinedBehaviour" and "b \<Longrightarrow> h = HandleAssetDataRead \<Longrightarrow> 32 \<le> length d"
  shows "fine b (abind (fill h d) (\<lambda>_. read_done env h False)) cl"
proof -
  obtain a r where cl: "cl_ops cl = []" "cl_calls cl = []" "cl_state cl = Authenticated a" "ca_request a = Some r"
    "length (cr_header r) = HEADER_SIZE" using assms(1) by (elim idle_authE)
  show ?thesis
  proof (cases h)
    case HandleClientRequestHeaderRead
    let ?cl = "cl\<lparr>cl_state := Authenticated (a\<lparr>ca_request := Some (r\<lparr>cr_header := d\<rparr>)\<rparr>)\<rparr>"
    have "fill h d cl = (Inr (), ?cl)"
      using HandleClientRequestHeaderRead cl by (simp add: fill_def current_request_def on_auth_def upd_auth_def setState_def abind_def)
    moreover have "idle_auth ?cl" using cl assms(2) HandleClientRequestHeaderRead by (simp add: idle_auth_def)
    then have "fine b (handleClientRequestHeaderRead env False) ?cl"
      using assms(3,4) by (intro handleClientRequestHeaderRead_fine) (simp_all add: stats_small_def)
    ultimately show ?thesis using HandleClientRequestHeaderRead by (simp add: fine_def abind_run read_done_def)
  next
    case HandleAssetDataRead
    let ?cl = "cl\<lparr>cl_state := Authenticated (a\<lparr>ca_request := Some (r\<lparr>cr_data := Some d\<rparr>)\<rparr>)\<rparr>"
    have "fill h d cl = (Inr (), ?cl)"
      using HandleAssetDataRead cl by (simp add: fill_def current_request_def on_auth_def upd_auth_def setState_def abind_def)
    moreover have "idle_auth ?cl" using cl by (simp add: idle_auth_def)
    then have "fine b (handleAssetDataRead False) ?cl"
      using assms(5) HandleAssetDataRead
      by (intro handleAssetDataRead_fine) (simp_all add: current_request_def on_auth_def)
    ultimately show ?thesis using HandleAssetDataRead by (simp add: fine_def abind_run read_done_def)
  qed (use assms(2) in simp)
qed

lemma auth_call_fine:
  assumes "idle_auth (cl\<lparr>cl_calls := []\<rparr>)" and "fine b (areturn ()) cl" and "cl_ops cl = []" and "cl_calls cl = [k]"
    and "b \<Longrightarrow> completion_ok cl e"
  shows "fine b (client_step env e) cl"
proof -
  let ?cl = "cl\<lparr>cl_calls := []\<rparr>"
  have s: "b \<Longrightarrow> stats_small ?cl" using assms(5) by (simp add: completion_ok_def stats_small_def)
  have step: "fine b (client_step env e) cl = fine b m ?cl" if "client_step env e cl = m ?cl" for m :: "(AssetClient, unit) action"
    using that by (simp add: fine_def)
  have idle: "fine b (client_step env e) cl" if "client_step env e cl = (Inr (), cl)"
    using that assms(2) by (simp add: fine_def)
  show ?thesis
    using assms(3,4)
    by (cases e; cases k)
      (use assms(1,5) s idle step in \<open>auto simp: client_step_def completion_ok_def
        intro!: handleStorageGetResponse_fine handleStorageWriteResponse_fine handleStoragePurgeResponse_fine statusGetCompleted_fine
          storedAssetIdsGetCompleted_fine handleIntrameshGetResponse_fine\<close>)
qed

lemma client_step_idle: "cl_ops cl = [] \<Longrightarrow> cl_calls cl = [] \<Longrightarrow> client_step env e cl = (Inr (), cl)"
  by (cases e) (simp_all add: client_step_def)

lemma client_step_write:
  "cl_ops cl = [AsyncWrite d h] \<Longrightarrow> cl_calls cl = [] \<Longrightarrow> client_step env e cl
     = (case e of WriteDone x \<Rightarrow> write_done env h x (cl\<lparr>cl_ops := []\<rparr>) | _ \<Rightarrow> (Inr (), cl))"
  by (cases e) (simp_all add: client_step_def)

lemma client_step_read:
  "cl_ops cl = [AsyncRead n h] \<Longrightarrow> cl_calls cl = [] \<Longrightarrow> client_step env e cl
     = (case e of ReadFailed \<Rightarrow> read_done env h True (cl\<lparr>cl_ops := []\<rparr>)
        | ReadDone d \<Rightarrow> if length d = n then abind (fill h d) (\<lambda>_. read_done env h False) (cl\<lparr>cl_ops := []\<rparr>) else (Inr (), cl)
        | _ \<Rightarrow> (Inr (), cl))"
  by (cases e) (simp_all add: client_step_def)

lemma auth_step_fine:
  assumes "conn_ok c True cl" and "cl_state cl = Authenticated a"
    and "\<And>u. b \<Longrightarrow> env_exists env u \<noteq> Inl UndefinedBehaviour" and "b \<Longrightarrow> completion_ok cl e"
  shows "fine b (client_step env e) cl"
proof -
  let ?idle = "cl\<lparr>cl_ops := [], cl_calls := []\<rparr>"
  have idle: "idle_auth ?idle" and one: "length (cl_ops cl) + length (cl_calls cl) \<le> 1" and ops: "list_all auth_op (cl_ops cl)"
    using assms(1,2) by (simp_all add: conn_ok_def)
  have same: "fine b (areturn ()) cl" using assms(1,2) by (simp add: fine_def conn_ok_def)
  consider (none) "cl_ops cl = []" "cl_calls cl = []" | (op) p where "cl_ops cl = [p]" "cl_calls cl = []" "auth_op p"
    | (call) k where "cl_ops cl = []" "cl_calls cl = [k]"
    using one ops by (cases "cl_ops cl"; cases "cl_calls cl") (auto simp: le_Suc_eq)
  then show ?thesis
  proof cases
    case none
    then show ?thesis using same client_step_idle [OF none] by (simp add: fine_def)
  next
    case (op p)
    then have i: "cl\<lparr>cl_ops := []\<rparr> = ?idle" by simp
    have s: "b \<Longrightarrow> stats_small ?idle" using assms(4) by (simp add: completion_ok_def stats_small_def)
    show ?thesis
    proof (cases p)
      case (AsyncWrite d h)
      then have "client_step env e cl = (case e of WriteDone x \<Rightarrow> write_done env h x ?idle | _ \<Rightarrow> (Inr (), cl))"
        using op client_step_write [of cl d h env e] by (simp only: i [symmetric])
      then show ?thesis
        using same write_done_fine [OF idle, of d h b env] op(3) s AsyncWrite by (cases e) (simp_all add: fine_def)
    next
      case (AsyncRead n h)
      then have step: "client_step env e cl = (case e of ReadFailed \<Rightarrow> read_done env h True ?idle
          | ReadDone d \<Rightarrow> if length d = n then abind (fill h d) (\<lambda>_. read_done env h False) ?idle else (Inr (), cl)
          | _ \<Rightarrow> (Inr (), cl))"
        using op client_step_read [of cl n h env e] by (simp only: i [symmetric])
      have "fine b (abind (fill h d) (\<lambda>_. read_done env h False)) ?idle" if "e = ReadDone d" "length d = n" for d
        using that op AsyncRead s assms(3,4) by (intro read_done_fine [OF idle]) (auto simp: completion_ok_def)
      then show ?thesis
        using same read_failed_fine [OF idle, of n h b env] op(3) AsyncRead step by (cases e) (simp_all add: fine_def)
    qed
  next
    case (call k)
    then have "cl\<lparr>cl_calls := []\<rparr> = ?idle" by simp
    then show ?thesis using auth_call_fine [OF _ same call assms(4)] idle by simp
  qed
qed

lemma conn_ok_mono: "conn_ok c v cl \<Longrightarrow> (v \<Longrightarrow> w) \<Longrightarrow> conn_ok c w cl"
proof (cases "cl_state cl")
  case (Unauthenticated u)
  assume c: "conn_ok c v cl" and w: "v \<Longrightarrow> w"
  have "unauth_op c v u p \<Longrightarrow> unauth_op c w u p" for p
    using w by (cases "(c, v, u, p)" rule: unauth_op.cases) auto
  then show ?thesis using c Unauthenticated by (auto simp: conn_ok_def list_all_iff)
qed (auto simp: conn_ok_def)

lemma response_checked:
  assumes "length password < 2 ^ 32 - 71" and "length d = AuthResponse_SIZE" and "length (ac_data c) = CHALLENGE_SIZE"
  shows "\<exists>ok server. isValid password (AuthResponseMsg d) c = Inr ok \<and> isServerResponse (AuthResponseMsg d) = Inr server"
proof -
  obtain i r j p where "d = i # r" "length r = 40" "ac_data c = j # p" "length p = 7"
    using assms(2,3) by (cases d; cases "ac_data c") (auto simp: layout)
  then show ?thesis
    using isValid_run [OF assms(1), of "AuthResponseMsg d" i r c j p] by (simp add: isServerResponse_def at_def)
qed

lemmas unauth_defs = on_unauth_def setState_def with_client_def socket_def disconnect_def abind_def

lemma handleWriteChallenge_ok:
  assumes "cl_state cl = Unauthenticated u" and "cl_ops cl = []" and "cl_calls cl = []" and "cl_purges cl = 0" and "cu_challenge u = Some c"
  shows "\<exists>cl'. handleWriteChallenge error cl = (Inr (), cl') \<and> conn_ok c v cl'"
  using assms by (simp add: handleWriteChallenge_def unauth_defs conn_ok_def)

lemma handleReadChallengeResponse_ok:
  assumes "cl_state cl = Unauthenticated u" and "cl_ops cl = []" and "cl_calls cl = []" and "cl_purges cl = 0" and "cu_challenge u = Some c"
    and "cu_response u = Some (AuthResponseMsg d)" and "length d = AuthResponse_SIZE" and "length (ac_data c) = CHALLENGE_SIZE"
    and "length (env_password env) < 2 ^ 32 - 71"
  shows "\<exists>cl'. handleReadChallengeResponse env error cl = (Inr (), cl')
    \<and> conn_ok c (isValid (env_password env) (AuthResponseMsg d) c = Inr True) cl'"
proof -
  obtain ok server where "isValid (env_password env) (AuthResponseMsg d) c = Inr ok" "isServerResponse (AuthResponseMsg d) = Inr server"
    using response_checked [OF assms(9,7,8)] by blast
  then show ?thesis
    using assms(1-6) by (cases ok; cases server) (simp_all add: handleReadChallengeResponse_def unauth_defs conn_ok_def)
qed

lemma handleWriteAuthSuccess_ok:
  assumes "cl_state cl = Unauthenticated u" and "cl_ops cl = []" and "cl_calls cl = []" and "cl_purges cl = 0"
  shows "\<exists>cl'. handleWriteAuthSuccess env cl = (Inr (), cl') \<and> conn_ok c True cl'"
  using assms
  by (simp add: handleWriteAuthSuccess_def unauth_defs conn_ok_def auth_start_def waitForRequest_def upd_auth_def on_auth_def
      CSAuthenticated_new_def ClientRequestMsg_new_def idle_auth_def layout)

definition accepted :: "string \<Rightarrow> AuthChallengeMsg \<Rightarrow> bytes \<Rightarrow> bool" where
  "accepted password c d \<longleftrightarrow> length d = AuthResponse_SIZE \<and> isValid password (AuthResponseMsg d) c = Inr True"

lemma unauth_disconnect_ok:
  assumes "cl_state cl = Unauthenticated u" and "cl_ops cl = []" and "cl_calls cl = []" and "cl_purges cl = 0"
  shows "\<exists>cl'. with_client disconnect cl = (Inr (), cl') \<and> conn_ok c v cl'"
  using assms by (simp add: unauth_defs conn_ok_def)

lemma unauth_write_ok:
  assumes "cl_state cl = Unauthenticated u" and "cl_ops cl = []" and "cl_calls cl = []" and "cl_purges cl = 0"
    and "unauth_op c v u (AsyncWrite d h)"
  shows "\<exists>cl'. write_done env h x cl = (Inr (), cl') \<and> conn_ok c v cl'"
proof (cases h)
  case HandleWriteChallenge
  then show ?thesis using handleWriteChallenge_ok [OF assms(1-4)] assms(5) by (simp add: write_done_def)
next
  case HandleWriteAuthFailure
  then show ?thesis using unauth_disconnect_ok [OF assms(1-4)] by (simp add: write_done_def handleWriteAuthFailure_def)
next
  case HandleWriteAuthSuccess
  then show ?thesis using handleWriteAuthSuccess_ok [OF assms(1-4)] assms(5) by (simp add: write_done_def)
qed (use assms(5) in simp_all)

lemma unauth_read_ok:
  assumes "cl_state cl = Unauthenticated u" and "cl_ops cl = []" and "cl_calls cl = []" and "cl_purges cl = 0" and "cu_challenge u = Some c"
    and "length d = AuthResponse_SIZE" and "length (ac_data c) = CHALLENGE_SIZE" and "length (env_password env) < 2 ^ 32 - 71"
  shows "\<exists>cl'. abind (fill HandleReadChallengeResponse d) (\<lambda>_. read_done env HandleReadChallengeResponse False) cl = (Inr (), cl')
    \<and> conn_ok c (accepted (env_password env) c d) cl'"
proof -
  let ?u = "u\<lparr>cu_response := Some (AuthResponseMsg d)\<rparr>"
  let ?cl = "cl\<lparr>cl_state := Unauthenticated ?u\<rparr>"
  have "abind (fill HandleReadChallengeResponse d) (\<lambda>_. read_done env HandleReadChallengeResponse False) cl
      = handleReadChallengeResponse env False ?cl"
    using assms(1) by (simp add: read_done_def fill_def on_unauth_def setState_def abind_def)
  then show ?thesis
    using handleReadChallengeResponse_ok [of ?cl ?u c d env False] assms(2-8) by (simp add: accepted_def)
qed

lemma unauth_step_fine:
  assumes "conn_ok c v cl" and "cl_state cl = Unauthenticated u" and "length (ac_data c) = CHALLENGE_SIZE"
    and "length (env_password env) < 2 ^ 32 - 71"
  shows "\<exists>cl'. client_step env e cl = (Inr (), cl')
    \<and> conn_ok c (v \<or> (\<exists>d. e = ReadDone d \<and> accepted (env_password env) c d)) cl'"
proof -
  let ?v = "v \<or> (\<exists>d. e = ReadDone d \<and> accepted (env_password env) c d)"
  let ?cl = "cl\<lparr>cl_ops := []\<rparr>"
  have cl: "cl_calls cl = []" "cl_purges cl = 0" "list_all (unauth_op c v u) (cl_ops cl)" "length (cl_ops cl) \<le> 1"
    using assms(1,2) by (simp_all add: conn_ok_def)
  have c0: "cl_state ?cl = Unauthenticated u" "cl_ops ?cl = []" "cl_calls ?cl = []" "cl_purges ?cl = 0" using assms(2) cl by simp_all
  have go: "\<exists>cl'. client_step env e cl = (Inr (), cl') \<and> conn_ok c ?v cl'"
    if "\<exists>cl'. client_step env e cl = (Inr (), cl') \<and> conn_ok c w cl'" "w \<Longrightarrow> ?v" for w
    using that(1) conn_ok_mono [OF _ that(2)] by blast
  have stay: "\<exists>cl'. client_step env e cl = (Inr (), cl') \<and> conn_ok c v cl'" if "client_step env e cl = (Inr (), cl)"
    by (rule exI, rule conjI, rule that, rule assms(1))
  consider (none) "cl_ops cl = []" | (wr) d h where "cl_ops cl = [AsyncWrite d h]" "unauth_op c v u (AsyncWrite d h)"
    | (rd) n h where "cl_ops cl = [AsyncRead n h]" "unauth_op c v u (AsyncRead n h)"
    using cl(3,4) by (cases "cl_ops cl"; cases "hd (cl_ops cl)") auto
  then show ?thesis
  proof cases
    case none
    show ?thesis by (rule go [OF stay [OF client_step_idle [OF none cl(1)]]]) (rule disjI1)
  next
    case (wr d h)
    have "\<exists>cl'. client_step env e cl = (Inr (), cl') \<and> conn_ok c v cl'"
      using stay client_step_write [OF wr(1) cl(1), of env e] unauth_write_ok [OF c0 wr(2)] by (cases e) simp_all
    then show ?thesis by (rule go) (rule disjI1)
  next
    case (rd n h)
    then have h: "h = HandleReadChallengeResponse" "cu_challenge u = Some c" "n = AuthResponse_SIZE" by (cases h; simp)+
    note step = client_step_read [OF rd(1) cl(1), of env e, unfolded h]
    show ?thesis
    proof (cases "\<exists>d. e = ReadDone d \<and> length d = AuthResponse_SIZE")
      case True
      then obtain d where d: "e = ReadDone d" "length d = AuthResponse_SIZE" by blast
      have "\<exists>cl'. client_step env e cl = (Inr (), cl') \<and> conn_ok c (accepted (env_password env) c d) cl'"
        using step d unauth_read_ok [OF c0 h(2) d(2) assms(3,4)] by simp
      then show ?thesis by (rule go) (simp add: d(1))
    next
      case False
      have "\<exists>cl'. client_step env e cl = (Inr (), cl') \<and> conn_ok c v cl'"
        using stay step False unauth_disconnect_ok [OF c0, of c v]
        by (cases e) (simp_all add: read_done_def handleReadChallengeResponse_def)
      then show ?thesis by (rule go) (rule disjI1)
    qed
  qed
qed

text \<open>
  The states of a connection with the completions that led there, whatever the peer sends and the
  storage answers; the password stays the same.
\<close>

inductive session :: "Env \<Rightarrow> AssetClient \<Rightarrow> completion list \<Rightarrow> bool" for env where
  session_start: "client_start env (AssetClient_new stats) = (r, cl) \<Longrightarrow> session env cl []"
| session_step: "session env cl es \<Longrightarrow> env_password env' = env_password env \<Longrightarrow> client_step env' e cl = (r, cl')
    \<Longrightarrow> session env cl' (es @ [e])"

definition session_ok :: "Env \<Rightarrow> AssetClient \<Rightarrow> completion list \<Rightarrow> bool" where
  "session_ok env cl es \<longleftrightarrow> conn_ok (AuthChallengeMsg_new False (env_random env))
     (\<exists>d. ReadDone d \<in> set es \<and> accepted (env_password env) (AuthChallengeMsg_new False (env_random env)) d) cl"

lemma challenge_length [simp]: "length (ac_data (AuthChallengeMsg_new False f)) = CHALLENGE_SIZE"
  by (simp add: AuthChallengeMsg_new_def generatePhrase_def layout)

lemma session_ok_start:
  "client_start env (AssetClient_new stats) = (r, cl) \<Longrightarrow> session_ok env cl []"
  by (auto simp: client_start_def AssetClient_new_def unauth_start_def sendAuthChallenge_def unauth_defs CSUnauthenticated_new_def
      session_ok_def conn_ok_def Let_def)

lemma session_ok_step:
  assumes "session_ok env cl es" and "env_password env' = env_password env" and "length (env_password env) < 2 ^ 32 - 71"
    and "client_step env' e cl = (r, cl')"
  shows "session_ok env cl' (es @ [e])"
proof (cases "cl_state cl")
  case (Unauthenticated u)
  from unauth_step_fine [OF assms(1) [unfolded session_ok_def] this, of env' e] assms(2-4) show ?thesis
    unfolding session_ok_def by (auto elim!: conn_ok_mono)
next
  case (Authenticated a)
  with assms(1) have v: "\<exists>d. ReadDone d \<in> set es \<and> accepted (env_password env) (AuthChallengeMsg_new False (env_random env)) d"
    "conn_ok (AuthChallengeMsg_new False (env_random env)) True cl"
    by (simp_all add: session_ok_def conn_ok_def)
  from auth_step_fine [OF v(2) Authenticated, of False env' e] assms(4)
  have "conn_ok (AuthChallengeMsg_new False (env_random env)) True cl'" by (simp add: fine_def)
  then show ?thesis unfolding session_ok_def using v(1) by (auto elim!: conn_ok_mono)
qed

lemma session_is_ok: "session env cl es \<Longrightarrow> length (env_password env) < 2 ^ 32 - 71 \<Longrightarrow> session_ok env cl es"
  by (induction rule: session.induct) (auto intro: session_ok_start session_ok_step)

lemma accepted_response:
  assumes "accepted password (AuthChallengeMsg_new False f) d" and "length password < 2 ^ 32 - 71"
  shows "hd d \<in> {PACKET_IDENTIFIER, SERVER_IDENTIFIER}
    \<and> tl d = bytes_of_string (hex_sha1 (password @ string_of_bytes (generatePhrase f)))"
proof -
  obtain i r where d: "d = i # r" "length r = 40" using assms(1) by (cases d) (auto simp: accepted_def layout)
  then show ?thesis
    using assms isValid_run [OF assms(2), of "AuthResponseMsg d" i r "AuthChallengeMsg_new False f" 0 "generatePhrase f"]
    by (auto simp: accepted_def AuthChallengeMsg_new_def generatePhrase_def layout)
qed


section \<open>Logging in and asking for an asset\<close>

definition login_response :: "Env \<Rightarrow> byte \<Rightarrow> bytes" where
  "login_response env i = i # bytes_of_string (hex_sha1 (env_password env @ string_of_bytes (generatePhrase (env_random env))))"

text \<open>A connection that waits for the next request.\<close>

definition waiting :: "AssetClient \<Rightarrow> bool" where
  "waiting cl \<longleftrightarrow> cl_connected cl \<and> cl_ops cl = [AsyncRead HEADER_SIZE HandleClientRequestHeaderRead] \<and> cl_calls cl = []
     \<and> (\<exists>a r. cl_state cl = Authenticated a \<and> ca_request a = Some r \<and> length (cr_header r) = HEADER_SIZE)"

lemma login_valid:
  assumes "length (env_password env) < 2 ^ 32 - 71" and "i = PACKET_IDENTIFIER \<or> i = SERVER_IDENTIFIER"
  shows "isValid (env_password env) (AuthResponseMsg (login_response env i)) (AuthChallengeMsg_new False (env_random env)) = Inr True"
  using assms(2) isValid_run [OF assms(1), of "AuthResponseMsg (login_response env i)" i "tl (login_response env i)"
      "AuthChallengeMsg_new False (env_random env)" 0 "generatePhrase (env_random env)"]
  by (auto simp: login_response_def AuthChallengeMsg_new_def generatePhrase_def layout)

lemma login:
  assumes "length (env_password env) < 2 ^ 32 - 71" and "i = PACKET_IDENTIFIER \<or> i = SERVER_IDENTIFIER"
  shows "\<exists>cl a. session env cl [WriteDone False, ReadDone (login_response env i), WriteDone False] \<and> waiting cl
    \<and> cl_stats cl = stats \<and> cl_state cl = Authenticated a \<and> ca_mesh a = (i = SERVER_IDENTIFIER)"
proof -
  let ?c = "AuthChallengeMsg_new False (env_random env)" and ?d = "login_response env i"
  let ?base = "\<lparr>cl_state = Unauthenticated \<lparr>cu_challenge = Some ?c, cu_response = None, cu_authStatus = None, cu_mesh = False\<rparr>,
    cl_connected = True, cl_open = True, cl_ops = [AsyncWrite (ac_data ?c) HandleWriteChallenge], cl_calls = [], cl_purges = 0, cl_stats = stats\<rparr>"
  let ?c2 = "?base\<lparr>cl_state := Unauthenticated \<lparr>cu_challenge = Some ?c, cu_response = Some AuthResponseMsg_new, cu_authStatus = None, cu_mesh = False\<rparr>,
    cl_ops := [AsyncRead AuthResponse_SIZE HandleReadChallengeResponse]\<rparr>"
  let ?c3 = "?base\<lparr>cl_state := Unauthenticated \<lparr>cu_challenge = Some ?c, cu_response = Some (AuthResponseMsg ?d),
      cu_authStatus = Some (AuthStatusMsg_new AS_AUTH_SUCCESS), cu_mesh = (i = SERVER_IDENTIFIER)\<rparr>,
    cl_ops := [AsyncWrite (as_data (AuthStatusMsg_new AS_AUTH_SUCCESS)) HandleWriteAuthSuccess]\<rparr>"
  have "client_start env (AssetClient_new stats) = (Inr (), ?base)"
    by (simp add: client_start_def AssetClient_new_def unauth_start_def sendAuthChallenge_def unauth_defs CSUnauthenticated_new_def Let_def)
  then have s1: "session env ?base []" by (rule session_start)
  have "client_step env (WriteDone False) ?base = (Inr (), ?c2)"
    by (simp add: client_step_def write_done_def handleWriteChallenge_def unauth_defs)
  from session_step [OF s1 refl this] have s2: "session env ?c2 [WriteDone False]" by simp
  have len: "length ?d = AuthResponse_SIZE" by (simp add: login_response_def layout)
  have srv: "isServerResponse (AuthResponseMsg ?d) = Inr (i = SERVER_IDENTIFIER)"
    by (simp add: isServerResponse_def at_def login_response_def)
  have "client_step env (ReadDone ?d) ?c2 = (Inr (), ?c3)"
    using login_valid [OF assms] srv len
    by (simp add: client_step_def read_done_def fill_def handleReadChallengeResponse_def unauth_defs)
  from session_step [OF s2 refl this] have s3: "session env ?c3 [WriteDone False, ReadDone ?d]" by simp
  let ?c4 = "?base\<lparr>cl_state := Authenticated ((CSAuthenticated_new (env_now env) (i = SERVER_IDENTIFIER))\<lparr>ca_request := Some ClientRequestMsg_new, ca_active := False\<rparr>),
    cl_ops := [AsyncRead HEADER_SIZE HandleClientRequestHeaderRead]\<rparr>"
  have "client_step env (WriteDone False) ?c3 = (Inr (), ?c4)"
    by (simp add: client_step_def write_done_def handleWriteAuthSuccess_def unauth_defs auth_start_def waitForRequest_def upd_auth_def on_auth_def)
  from session_step [OF s3 refl this] have s4: "session env ?c4 [WriteDone False, ReadDone ?d, WriteDone False]" by simp
  moreover have "waiting ?c4" by (simp add: waiting_def ClientRequestMsg_new_def)
  ultimately show ?thesis by (intro exI [of _ ?c4]) (simp add: CSAuthenticated_new_def)
qed

lemma waitingE:
  assumes "waiting cl"
  obtains a r where "cl_connected cl" "cl_ops cl = [AsyncRead HEADER_SIZE HandleClientRequestHeaderRead]" "cl_calls cl = []"
    "cl_state cl = Authenticated a" "ca_request a = Some r"
  using assms unfolding waiting_def by blast

lemma valid_length: "IsValidUUID u \<Longrightarrow> length u = 32"
  by (simp add: IsValidUUID_iff)

text \<open>A request header is read: the handler of its type runs on the request.\<close>

lemma request_read:
  assumes "waiting cl" and "stats_small cl" and "length h = HEADER_SIZE" and "h = request_code t # h'"
  shows "\<exists>a st. client_step env (ReadDone h) cl = acatch (handle_request env t) (\<lambda>e. with_client disconnect)
      (cl\<lparr>cl_ops := [], cl_stats := st, cl_state := Authenticated a\<rparr>)
    \<and> (\<exists>r. ca_request a = Some r \<and> cr_header r = h)
    \<and> (\<exists>a0. cl_state cl = Authenticated a0 \<and> ca_mesh a = ca_mesh a0)
    \<and> kbTransferredSinceLastPoll st = kbTransferredSinceLastPoll (cl_stats cl)
    \<and> meshKbTransferredSinceLastPoll st = meshKbTransferredSinceLastPoll (cl_stats cl)"
proof -
  obtain a r where cl: "cl_connected cl" "cl_ops cl = [AsyncRead HEADER_SIZE HandleClientRequestHeaderRead]" "cl_calls cl = []"
    "cl_state cl = Authenticated a" "ca_request a = Some r" using assms(1) by (rule waitingE)
  have t: "Request_getType (r\<lparr>cr_header := h\<rparr>) = Inr t" using assms(4) by (simp add: Request_getType_code)
  let ?a = "a\<lparr>ca_request := Some (r\<lparr>cr_header := h\<rparr>), ca_active := True, ca_since := env_now env\<rparr>"
  let ?st = "(cl_stats cl)\<lparr>reqSinceLastPoll := reqSinceLastPoll (cl_stats cl) + 1\<rparr>"
  have "client_step env (ReadDone h) cl = acatch (handle_request env t) (\<lambda>e. with_client disconnect)
      (cl\<lparr>cl_ops := [], cl_stats := ?st, cl_state := Authenticated ?a\<rparr>)"
    using cl assms(2,3) t
    by (simp add: client_step_def fill_def current_request_def on_auth_def upd_auth_def setState_def abind_def read_done_def
        handleClientRequestHeaderRead_def AddRequestToStats_def stat_def add_int_def stats_small_def acatch_def)
  then show ?thesis using cl by (intro exI [of _ ?a] exI [of _ ?st]) simp
qed

definition get_header :: "string \<Rightarrow> bytes" where
  "get_header u = cr_header (ClientRequestMsg_get RT_GET u)"

lemma get_request_read:
  assumes "waiting cl" and "stats_small cl" and "IsValidUUID u"
  shows "\<exists>cl'. client_step env (ReadDone (get_header u)) cl = (Inr (), cl') \<and> cl_ops cl' = [] \<and> cl_calls cl' = [StorageGet u SF_NONE]
    \<and> cl_connected cl' \<and> idle_auth (cl'\<lparr>cl_calls := []\<rparr>) \<and> stats_small (cl'\<lparr>cl_stats := (cl_stats cl')\<lparr>reqSinceLastPoll := 0\<rparr>\<rparr>)"
proof -
  have h: "get_header u = request_code RT_GET # bytes_of_string u @ replicate 4 0" "length (get_header u) = HEADER_SIZE"
    using valid_length [OF assms(3)] by (simp_all add: get_header_def ClientRequestMsg_get_def layout)
  obtain a st r where s: "client_step env (ReadDone (get_header u)) cl = acatch (handle_request env RT_GET) (\<lambda>e. with_client disconnect)
      (cl\<lparr>cl_ops := [], cl_stats := st, cl_state := Authenticated a\<rparr>)" "ca_request a = Some r" "cr_header r = get_header u"
    "kbTransferredSinceLastPoll st = kbTransferredSinceLastPoll (cl_stats cl)"
    "meshKbTransferredSinceLastPoll st = meshKbTransferredSinceLastPoll (cl_stats cl)"
    using request_read [OF assms(1,2) h(2,1)] by blast
  have "Request_getUUID r = Inr u" using header_uuid [OF valid_length [OF assms(3)]] s(3) h(1) by (simp add: Request_getUUID_def)
  then have "client_step env (ReadDone (get_header u)) cl = (Inr (), cl\<lparr>cl_ops := [], cl_stats := st, cl_state := Authenticated a, cl_calls := [StorageGet u SF_NONE]\<rparr>)"
    using s(1,2) assms(1,3)
    by (auto simp: waiting_def handle_request_def handleGetRequest_def or_error_def acatch_def valid_uuid_def request_uuid_def current_request_def
        on_auth_def abind_def call_def)
  then show ?thesis
    using s h(2) assms(1,2) by (auto simp: waiting_def idle_auth_def stats_small_def)
qed

lemma asset_sent:
  assumes "idle_auth (cl\<lparr>cl_calls := []\<rparr>)" and "cl_ops cl = []" and "cl_calls cl = [StorageGet u f]" and "cl_connected cl"
    and "Asset_getUUID x = Inr v" and "length (getData x) < 2 ^ 32"
  shows "\<exists>m. client_step env (GetAnswer (Some x) True err) cl
      = (Inr (), cl\<lparr>cl_calls := [], cl_ops := [AsyncWrite (sr_header m) (HandleResponseHeaderWrite m)]\<rparr>)
    \<and> validateHeader m = Inr True \<and> getResponseCode m = Inr (response_code RC_FOUND) \<and> Response_getUUID m = Inr v
    \<and> Response_getDataSize m = Inr (of_nat (length (getData x))) \<and> sr_data m = Some (getData x)"
proof -
  have v: "length v = 32" using assms(5) by (auto simp: Asset_getUUID_def read_string_def split: if_splits)
  let ?m = "\<lparr>sr_data = Some (getData x), sr_header = response_code RC_FOUND # bytes_of_string v @ be32 (of_nat (length (getData x)))\<rparr>"
  have "ServerResponseMsg_data RC_FOUND v (getData x) = Inr ?m"
    using assms(6) setupHeader_run [OF v] by (simp add: ServerResponseMsg_data_def numeric_cast_u32_def)
  then have "client_step env (GetAnswer (Some x) True err) cl
      = (Inr (), cl\<lparr>cl_calls := [], cl_ops := [AsyncWrite (sr_header ?m) (HandleResponseHeaderWrite ?m)]\<rparr>)"
    using assms(2-5) by (simp add: client_step_def handleStorageGetResponse_def sendResponse_def with_client_def socket_def)
  then show ?thesis using response_header [OF v, of ?m RC_FOUND] by (intro exI [of _ ?m]) simp
qed

lemma header_written:
  assumes "idle_auth (cl\<lparr>cl_ops := []\<rparr>)" and "cl_ops cl = [AsyncWrite h (HandleResponseHeaderWrite m)]" and "cl_connected cl"
    and "sr_data m = Some d" and "length d < 2 ^ 31"
    and "stats_small (cl\<lparr>cl_stats := (cl_stats cl)\<lparr>reqSinceLastPoll := 0\<rparr>\<rparr>)"
  shows "\<exists>st. client_step env (WriteDone False) cl = (Inr (), cl\<lparr>cl_ops := [AsyncWrite d (HandleResponseDataWrite m)], cl_stats := st\<rparr>)"
proof -
  have n: "int (length d) < 2 ^ 31" using assms(5) by simp
  obtain a where a: "cl_state cl = Authenticated a" "cl_calls cl = []" using assms(1) by (auto simp: idle_auth_def)
  have k: "0 \<le> kbTransferredSinceLastPoll (cl_stats cl) + transfer_kb (int (length d))"
    "kbTransferredSinceLastPoll (cl_stats cl) + transfer_kb (int (length d)) < 2 ^ 31"
    "0 \<le> meshKbTransferredSinceLastPoll (cl_stats cl) + transfer_kb (int (length d))"
    "meshKbTransferredSinceLastPoll (cl_stats cl) + transfer_kb (int (length d)) < 2 ^ 31"
    using assms(6) transfer_kb_bound [OF n] by (simp_all add: stats_small_def)
  let ?cl = "cl\<lparr>cl_ops := [AsyncWrite d (HandleResponseDataWrite m)]\<rparr>"
  have "client_step env (WriteDone False) cl = abind (AddTransferToStats (int (length d))) (\<lambda>_.
      on_auth (\<lambda>a. if ca_mesh a then AddMeshTransferToStats (int (length d)) else areturn ())) ?cl"
    using client_step_write [OF assms(2) a(2), of env "WriteDone False"] assms(3,4,5)
    by (simp add: write_done_def handleResponseHeaderWrite_def with_client_def socket_def)
  also have "\<dots> = (Inr (), ?cl\<lparr>cl_stats := (if ca_mesh a then \<lparr>reqSinceLastPoll = reqSinceLastPoll (cl_stats cl),
      kbTransferredSinceLastPoll = kbTransferredSinceLastPoll (cl_stats cl) + transfer_kb (int (length d)),
      meshKbTransferredSinceLastPoll = meshKbTransferredSinceLastPoll (cl_stats cl) + transfer_kb (int (length d))\<rparr>
      else (cl_stats cl)\<lparr>kbTransferredSinceLastPoll := kbTransferredSinceLastPoll (cl_stats cl) + transfer_kb (int (length d))\<rparr>)\<rparr>)"
    using a(1) k by (simp add: abind_def on_auth_def AddTransferToStats_def AddMeshTransferToStats_def stat_def add_int_def)
  finally show ?thesis by blast
qed

lemma data_written:
  assumes "idle_auth (cl\<lparr>cl_ops := []\<rparr>)" and "cl_ops cl = [AsyncWrite d (HandleResponseDataWrite m)]" and "cl_connected cl"
  shows "\<exists>cl'. client_step env (WriteDone False) cl = (Inr (), cl') \<and> waiting cl'"
  using assms
  by (auto simp: client_step_write write_done_def handleResponseDataWrite_def waitForRequest_def upd_auth_def on_auth_def setState_def abind_def
      with_client_def socket_def waiting_def ClientRequestMsg_new_def elim!: idle_authE)

definition sample_env :: Env where
  "sample_env = \<lparr>env_now = 0, env_password = ''pw'', env_random = (\<lambda>_. 65), env_exists = (\<lambda>_. Inr False), env_server_status = []\<rparr>"

definition sample_login :: "completion list" where
  "sample_login = [WriteDone False, ReadDone (login_response sample_env PACKET_IDENTIFIER), WriteDone False]"

lemma sample_login_run:
  "\<exists>cl a. session sample_env cl sample_login \<and> waiting cl \<and> stats_small cl \<and> cl_state cl = Authenticated a"
proof -
  let ?st = "\<lparr>reqSinceLastPoll = 0, kbTransferredSinceLastPoll = 0, meshKbTransferredSinceLastPoll = 0\<rparr>"
  have "length (env_password sample_env) < 2 ^ 32 - 71" by (simp add: sample_env_def)
  from login [OF this, of PACKET_IDENTIFIER ?st] show ?thesis unfolding sample_login_def by (auto simp: stats_small_def)
qed

section \<open>The promises of a connection\<close>

text \<open>
  C16: Whatever a peer sends, a connection that is authenticated, has a call to the storage or the
  mesh pending or has started a purge has read a response of 41 bytes made of an identifier and the
  lower case hexadecimal SHA-1 of the password followed by the phrase of this connection's challenge.
\<close>

theorem client_needs_password:
  assumes "session env cl es" and "length (env_password env) < 2 ^ 32 - 71"
    and "cl_calls cl \<noteq> [] \<or> cl_purges cl \<noteq> 0 \<or> cl_state cl = Authenticated a"
  shows "\<exists>d. ReadDone d \<in> set es \<and> hd d \<in> {PACKET_IDENTIFIER, SERVER_IDENTIFIER}
    \<and> tl d = bytes_of_string (hex_sha1 (env_password env @ string_of_bytes (generatePhrase (env_random env))))"
proof -
  have "session_ok env cl es" using session_is_ok [OF assms(1,2)] .
  then have "\<exists>d. ReadDone d \<in> set es \<and> accepted (env_password env) (AuthChallengeMsg_new False (env_random env)) d"
    using assms(3) by (cases "cl_state cl") (auto simp: session_ok_def conn_ok_def)
  then show ?thesis using accepted_response [OF _ assms(2)] by blast
qed

theorem client_needs_password_witness:
  "\<exists>cl. session sample_env cl sample_login \<and> waiting cl
    \<and> (\<exists>d. ReadDone d \<in> set sample_login \<and> hd d \<in> {PACKET_IDENTIFIER, SERVER_IDENTIFIER}
      \<and> tl d = bytes_of_string (hex_sha1 (''pw'' @ string_of_bytes (generatePhrase (\<lambda>_. 65)))))"
proof -
  obtain cl a where cl: "session sample_env cl sample_login" "waiting cl" "cl_state cl = Authenticated a"
    using sample_login_run by blast
  have "length (env_password sample_env) < 2 ^ 32 - 71" by (simp add: sample_env_def)
  from client_needs_password [OF cl(1) this disjI2 [OF disjI2 [OF cl(3)]]] cl(1,2) show ?thesis
    unfolding sample_env_def by auto
qed

text \<open>
  C17: A connection waits for at most one socket operation or answer at a time, every pending handler
  belongs to the state object the connection is in, an authenticated connection has a request
  object, and if the peer sends at least 32 bytes of asset data, the storage and the mesh answer as
  they should and the counters are polled in time, the next completion reaches no undefined
  behaviour.  The lifetime of the objects behind the handlers is not part of the model.
\<close>

theorem client_handlers_typed:
  assumes "session env cl es" and "length (env_password env) < 2 ^ 32 - 71" and "env_password env' = env_password env"
    and "\<And>u. env_exists env' u \<noteq> Inl UndefinedBehaviour" and "completion_ok cl e"
  shows "length (cl_ops cl) + length (cl_calls cl) \<le> 1
    \<and> (case cl_state cl of
         Unauthenticated u \<Rightarrow> cl_calls cl = []
           \<and> list_all (unauth_op (AuthChallengeMsg_new False (env_random env)) True u) (cl_ops cl)
       | Authenticated a \<Rightarrow> ca_request a \<noteq> None \<and> list_all auth_op (cl_ops cl))
    \<and> fst (client_step env' e cl) \<noteq> Inl UndefinedBehaviour"
proof -
  have "session_ok env cl es" using session_is_ok [OF assms(1,2)] .
  then have c: "conn_ok (AuthChallengeMsg_new False (env_random env)) True cl"
    unfolding session_ok_def by (rule conn_ok_mono) simp
  show ?thesis
  proof (cases "cl_state cl")
    case (Unauthenticated u)
    from unauth_step_fine [OF c this, of env' e] assms(2,3) c Unauthenticated show ?thesis
      by (auto simp: conn_ok_def)
  next
    case (Authenticated a)
    from auth_step_fine [OF c this, of True env' e] assms(4,5) c Authenticated show ?thesis
      by (auto simp: conn_ok_def fine_def idle_auth_def)
  qed
qed

theorem client_handlers_typed_witness:
  "\<exists>cl. session sample_env cl sample_login \<and> waiting cl \<and> fst (client_step sample_env ReadFailed cl) \<noteq> Inl UndefinedBehaviour"
proof -
  obtain cl where cl: "session sample_env cl sample_login" "waiting cl" "stats_small cl" using sample_login_run by blast
  have "completion_ok cl ReadFailed" using cl(3) by (simp add: completion_ok_def)
  from client_handlers_typed [OF cl(1) _ refl _ this] have "fst (client_step sample_env ReadFailed cl) \<noteq> Inl UndefinedBehaviour"
    by (simp add: sample_env_def)
  with cl(1,2) show ?thesis by blast
qed

text \<open>
  C18: A waiting connection that reads a get request asks the storage for exactly that id; when the
  storage answers with an asset, the connection sends a header that a client reads as found, with the
  id of the asset and its size, then the bytes of the asset, and waits for the next request.
\<close>

theorem get_reply:
  assumes "waiting cl" and "stats_small cl" and "IsValidUUID u" and "Asset_getUUID x = Inr v" and "length (getData x) < 2 ^ 31"
  shows "\<exists>cl1 cl2 cl3 cl4 m. client_step env (ReadDone (get_header u)) cl = (Inr (), cl1) \<and> cl_calls cl1 = [StorageGet u SF_NONE]
    \<and> client_step env (GetAnswer (Some x) True None) cl1 = (Inr (), cl2)
    \<and> cl_ops cl2 = [AsyncWrite (sr_header m) (HandleResponseHeaderWrite m)]
    \<and> validateHeader m = Inr True \<and> getResponseCode m = Inr (response_code RC_FOUND) \<and> Response_getUUID m = Inr v
    \<and> Response_getDataSize m = Inr (of_nat (length (getData x)))
    \<and> client_step env (WriteDone False) cl2 = (Inr (), cl3) \<and> cl_ops cl3 = [AsyncWrite (getData x) (HandleResponseDataWrite m)]
    \<and> client_step env (WriteDone False) cl3 = (Inr (), cl4) \<and> waiting cl4"
proof -
  obtain cl1 where c1: "client_step env (ReadDone (get_header u)) cl = (Inr (), cl1)" "cl_ops cl1 = []" "cl_calls cl1 = [StorageGet u SF_NONE]"
    "cl_connected cl1" "idle_auth (cl1\<lparr>cl_calls := []\<rparr>)" "stats_small (cl1\<lparr>cl_stats := (cl_stats cl1)\<lparr>reqSinceLastPoll := 0\<rparr>\<rparr>)"
    using get_request_read [OF assms(1-3)] by blast
  have "length (getData x) < 2 ^ 32" using assms(5) by simp
  from asset_sent [OF c1(5,2,3,4) assms(4) this, of env None] obtain m where
    m: "client_step env (GetAnswer (Some x) True None) cl1
      = (Inr (), cl1\<lparr>cl_calls := [], cl_ops := [AsyncWrite (sr_header m) (HandleResponseHeaderWrite m)]\<rparr>)"
    "validateHeader m = Inr True \<and> getResponseCode m = Inr (response_code RC_FOUND) \<and> Response_getUUID m = Inr v
    \<and> Response_getDataSize m = Inr (of_nat (length (getData x)))" "sr_data m = Some (getData x)" by blast
  let ?cl2 = "cl1\<lparr>cl_calls := [], cl_ops := [AsyncWrite (sr_header m) (HandleResponseHeaderWrite m)]\<rparr>"
  have i2: "idle_auth (?cl2\<lparr>cl_ops := []\<rparr>)" using c1(5,2) by (simp add: idle_auth_def)
  have st2: "stats_small (?cl2\<lparr>cl_stats := (cl_stats ?cl2)\<lparr>reqSinceLastPoll := 0\<rparr>\<rparr>)" using c1(6) by (simp add: stats_small_def)
  from header_written [OF i2 _ _ m(3) assms(5) st2, of "sr_header m" env] c1(4) obtain st where
    h: "client_step env (WriteDone False) ?cl2 = (Inr (), ?cl2\<lparr>cl_ops := [AsyncWrite (getData x) (HandleResponseDataWrite m)], cl_stats := st\<rparr>)"
    by auto
  let ?cl3 = "?cl2\<lparr>cl_ops := [AsyncWrite (getData x) (HandleResponseDataWrite m)], cl_stats := st\<rparr>"
  have "idle_auth (?cl3\<lparr>cl_ops := []\<rparr>)" using i2 by (simp add: idle_auth_def)
  from data_written [OF this, of "getData x" m env] c1(4) obtain cl4 where
    w: "client_step env (WriteDone False) ?cl3 = (Inr (), cl4)" "waiting cl4" by auto
  show ?thesis
    by (intro exI conjI) (rule c1(1) c1(3) m(1) h w m(2) [THEN conjunct1] | simp add: m(2))+
qed

theorem get_reply_witness:
  "\<exists>cl cl1 cl2. session sample_env cl sample_login
    \<and> client_step sample_env (ReadDone (get_header (replicate 32 CHR ''a''))) cl = (Inr (), cl1)
    \<and> client_step sample_env (GetAnswer (Some sample_asset) True None) cl1 = (Inr (), cl2)
    \<and> cl_calls cl1 = [StorageGet (replicate 32 CHR ''a'') SF_NONE] \<and> length (cl_ops cl2) = 1"
proof -
  obtain cl where cl: "session sample_env cl sample_login" "waiting cl" "stats_small cl" using sample_login_run by blast
  have "Asset_getUUID sample_asset = Inr (replicate 32 CHR ''a'')" "length (getData sample_asset) < 2 ^ 31"
    using sample_storable(1) by (simp_all add: storable_def sample_asset_def)
  from get_reply [OF cl(2,3) sample_valid this, of sample_env] obtain cl1 cl2 m where
    r: "client_step sample_env (ReadDone (get_header (replicate 32 CHR ''a''))) cl = (Inr (), cl1)"
      "client_step sample_env (GetAnswer (Some sample_asset) True None) cl1 = (Inr (), cl2)"
      "cl_calls cl1 = [StorageGet (replicate 32 CHR ''a'') SF_NONE]"
      "cl_ops cl2 = [AsyncWrite (sr_header m) (HandleResponseHeaderWrite m)]" by blast
  then have "length (cl_ops cl2) = 1" by simp
  with r(1-3) cl(1) show ?thesis by blast
qed

text \<open>
  C19: A put request whose data is shorter than an id makes the server read past the end of the
  data: the bytes of the id are taken before any length is checked.
\<close>

theorem short_put_undefined:
  assumes "waiting cl" and "stats_small cl" and "length d < 32" and "length u = 32"
  shows "\<exists>cl1. client_step env (ReadDone (request_code RT_PUT # bytes_of_string u @ be32 (of_nat (length d)))) cl = (Inr (), cl1)
    \<and> cl_ops cl1 = [AsyncRead (length d) HandleAssetDataRead]
    \<and> fst (client_step env (ReadDone d) cl1) = Inl UndefinedBehaviour"
proof -
  let ?h = "request_code RT_PUT # bytes_of_string u @ be32 (of_nat (length d))"
  have h: "length ?h = HEADER_SIZE" using assms(4) by (simp add: layout)
  obtain a st r where s: "client_step env (ReadDone ?h) cl = acatch (handle_request env RT_PUT) (\<lambda>e. with_client disconnect)
      (cl\<lparr>cl_ops := [], cl_stats := st, cl_state := Authenticated a\<rparr>)" "ca_request a = Some r" "cr_header r = ?h"
    using request_read [OF assms(1,2) h refl] by blast
  have n: "getDataSize r = Inr (of_nat (length d))" using s(3) header_peek32 [of "bytes_of_string u"] assms(4) by (simp add: getDataSize_def layout)
  have u: "unat (of_nat (length d) :: u32) = length d" using assms(3) by (simp add: unat_of_nat)
  let ?r = "r\<lparr>cr_data := Some (replicate (length d) 0)\<rparr>"
  let ?cl1 = "cl\<lparr>cl_stats := st, cl_state := Authenticated (a\<lparr>ca_request := Some ?r\<rparr>), cl_ops := [AsyncRead (length d) HandleAssetDataRead]\<rparr>"
  have c1: "client_step env (ReadDone ?h) cl = (Inr (), ?cl1)"
    using s n u assms(1) unfolding s(1)
    by (auto simp: waiting_def handle_request_def handlePutRequest_def acatch_def current_request_def on_auth_def upd_auth_def setState_def abind_def
        initDataStorageFromHeader_def with_client_def socket_def getDataSize_def)
  moreover have "fst (client_step env (ReadDone d) ?cl1) = Inl UndefinedBehaviour"
    using assms(1,3)
    by (auto simp: waiting_def client_step_read read_done_def fill_def current_request_def on_auth_def upd_auth_def setState_def abind_def
        handleAssetDataRead_def or_error_def acatch_def Asset_getUUID_def read_string_def)
  ultimately show ?thesis by (intro exI [of _ ?cl1]) simp
qed

theorem short_put_undefined_witness:
  "\<exists>cl cl1. session sample_env cl sample_login
    \<and> client_step sample_env (ReadDone (request_code RT_PUT # bytes_of_string (replicate 32 CHR ''a'') @ be32 0)) cl = (Inr (), cl1)
    \<and> fst (client_step sample_env (ReadDone []) cl1) = Inl UndefinedBehaviour"
proof -
  obtain cl where cl: "session sample_env cl sample_login" "waiting cl" "stats_small cl" using sample_login_run by blast
  from short_put_undefined [OF cl(2,3), of "[]" "replicate 32 CHR ''a''" sample_env] cl(1) show ?thesis by auto
qed

end
