(* ===== verification/HttpParser.thy ===== *)
theory HttpParser
  imports Prelude
begin

text \<open>
  The HTTP front end (\<open>src/aperture\<close>) reads requests with a state machine that is fed one character
  at a time (\<open>request_parser.cpp\<close>).  The machine and the requests it builds are modelled state by
  state; a request that is printed and read back in any pieces is the same request, and an overlong
  version number overflows a signed integer.
\<close>

section \<open>Requests\<close>

record http_header =
  hd_name :: string
  hd_value :: string

record request =
  rq_method :: string
  rq_uri :: string
  http_version_major :: int
  http_version_minor :: int
  rq_headers :: "http_header list"
  is_ready :: bool
  is_bad :: bool

definition header_value :: "request \<Rightarrow> string \<Rightarrow> string" where
  "header_value r name = (case filter (\<lambda>h. hd_name h = name) (rq_headers r) of [] \<Rightarrow> [] | h # _ \<Rightarrow> hd_value h)"

text \<open>A new request; its version numbers are not initialised and hold anything.\<close>

definition init_new_request :: "int \<Rightarrow> int \<Rightarrow> request" where
  "init_new_request major minor = \<lparr>rq_method = [], rq_uri = [], http_version_major = major, http_version_minor = minor,
     rq_headers = [], is_ready = False, is_bad = False\<rparr>"

section \<open>The state machine\<close>

text \<open>A \<open>char\<close> is signed: the upper half of the bytes is negative.\<close>

definition schar :: "char \<Rightarrow> int" where
  "schar c = (if (of_char c :: int) < 128 then of_char c else of_char c - 256)"

definition is_char :: "int \<Rightarrow> bool" where
  "is_char c \<longleftrightarrow> 0 \<le> c \<and> c \<le> 127"

definition is_ctl :: "int \<Rightarrow> bool" where
  "is_ctl c \<longleftrightarrow> (0 \<le> c \<and> c \<le> 31) \<or> c = 127"

definition is_tspecial :: "int \<Rightarrow> bool" where
  "is_tspecial c \<longleftrightarrow> c \<in> set (map schar ([CHR ''('', CHR '')'', CHR ''<'', CHR ''>'', CHR ''@'',
     CHR '','', CHR '';'', CHR '':'', CHR 0x5C, CHR 0x22, CHR ''/'', CHR ''['', CHR '']'', CHR ''?'', CHR ''='',
     CHR 0x7B, CHR 0x7D, CHR '' '', CHR 0x09]))"

definition is_digit :: "int \<Rightarrow> bool" where
  "is_digit c \<longleftrightarrow> 48 \<le> c \<and> c \<le> 57"

datatype parser_state =
    method_start | in_method | uri_start | in_uri
  | http_version_h | http_version_t_1 | http_version_t_2 | http_version_p | http_version_slash
  | http_version_major_start | in_http_version_major | http_version_minor_start | in_http_version_minor
  | expecting_newline_1 | header_line_start | header_lws | in_header_name | space_before_header_value
  | in_header_value | expecting_newline_2 | expecting_newline_3

datatype tribool = Ttrue | Tfalse | Indeterminate

type_synonym consumed = "(tribool \<times> parser_state \<times> request) result"

definition CR :: char where "CR = CHR 0x0D"
definition LF :: char where "LF = CHR 0x0A"
definition HT :: char where "HT = CHR 0x09"

definition token_char :: "char \<Rightarrow> bool" where
  "token_char c \<longleftrightarrow> \<not> (\<not> is_char (schar c) \<or> is_ctl (schar c) \<or> is_tspecial (schar c))"

definition proceed :: "parser_state \<Rightarrow> request \<Rightarrow> consumed" where
  "proceed st req = Inr (Indeterminate, st, req)"

definition bad :: "parser_state \<Rightarrow> request \<Rightarrow> consumed" where
  "bad st req = Inr (Tfalse, st, req\<lparr>is_bad := True\<rparr>)"

text \<open>\<open>version * 10 + input - '0'\<close> on \<open>int\<close>, which must not leave its range on the way.\<close>

definition checked_int :: "int \<Rightarrow> int result" where
  "checked_int i = (if - (2 ^ 31) \<le> i \<and> i < 2 ^ 31 then Inr i else Inl UndefinedBehaviour)"

definition version_digit :: "int \<Rightarrow> char \<Rightarrow> int result" where
  "version_digit v c = ebind (checked_int (v * 10)) (\<lambda>a. ebind (checked_int (a + schar c)) (\<lambda>b. checked_int (b - 48)))"

text \<open>\<open>req.headers.back()\<close> of no headers is not defined.\<close>

definition back_header :: "(http_header \<Rightarrow> http_header) \<Rightarrow> request \<Rightarrow> request result" where
  "back_header f req = (if rq_headers req = [] then Inl UndefinedBehaviour
     else Inr (req\<lparr>rq_headers := butlast (rq_headers req) @ [f (last (rq_headers req))]\<rparr>))"

definition expect :: "char \<Rightarrow> char \<Rightarrow> parser_state \<Rightarrow> parser_state \<Rightarrow> request \<Rightarrow> consumed" where
  "expect input c st st' req = (if input = c then proceed st' req else bad st req)"

fun consume :: "parser_state \<Rightarrow> request \<Rightarrow> char \<Rightarrow> consumed" where
  "consume method_start req c =
     (if \<not> is_char (schar c) \<or> is_ctl (schar c) \<or> is_tspecial (schar c) then bad method_start req
      else proceed in_method (req\<lparr>rq_method := rq_method req @ [c]\<rparr>))"
| "consume in_method req c =
     (if c = CHR '' '' then proceed in_uri req
      else if \<not> is_char (schar c) \<or> is_ctl (schar c) \<or> is_tspecial (schar c) then bad in_method req
      else proceed in_method (req\<lparr>rq_method := rq_method req @ [c]\<rparr>))"
| "consume uri_start req c =
     (if is_ctl (schar c) then bad uri_start req
      else proceed in_uri (req\<lparr>rq_uri := rq_uri req @ [c]\<rparr>))"
| "consume in_uri req c =
     (if c = CHR '' '' then proceed http_version_h req
      else if is_ctl (schar c) then bad in_uri req
      else proceed in_uri (req\<lparr>rq_uri := rq_uri req @ [c]\<rparr>))"
| "consume http_version_h req c = expect c (CHR ''H'') http_version_h http_version_t_1 req"
| "consume http_version_t_1 req c = expect c (CHR ''T'') http_version_t_1 http_version_t_2 req"
| "consume http_version_t_2 req c = expect c (CHR ''T'') http_version_t_2 http_version_p req"
| "consume http_version_p req c = expect c (CHR ''P'') http_version_p http_version_slash req"
| "consume http_version_slash req c =
     (if c = CHR ''/'' then proceed http_version_major_start (req\<lparr>http_version_major := 0, http_version_minor := 0\<rparr>)
      else bad http_version_slash req)"
| "consume http_version_major_start req c =
     (if is_digit (schar c)
      then ebind (version_digit (http_version_major req) c) (\<lambda>v. proceed in_http_version_major (req\<lparr>http_version_major := v\<rparr>))
      else bad http_version_major_start req)"
| "consume in_http_version_major req c =
     (if c = CHR ''.'' then proceed http_version_minor_start req
      else if is_digit (schar c)
      then ebind (version_digit (http_version_major req) c) (\<lambda>v. proceed in_http_version_major (req\<lparr>http_version_major := v\<rparr>))
      else bad in_http_version_major req)"
| "consume http_version_minor_start req c =
     (if is_digit (schar c)
      then ebind (version_digit (http_version_minor req) c) (\<lambda>v. proceed in_http_version_minor (req\<lparr>http_version_minor := v\<rparr>))
      else bad http_version_minor_start req)"
| "consume in_http_version_minor req c =
     (if c = CR then proceed expecting_newline_1 req
      else if is_digit (schar c)
      then ebind (version_digit (http_version_minor req) c) (\<lambda>v. proceed in_http_version_minor (req\<lparr>http_version_minor := v\<rparr>))
      else bad in_http_version_minor req)"
| "consume expecting_newline_1 req c = expect c LF expecting_newline_1 header_line_start req"
| "consume header_line_start req c =
     (if c = CR then proceed expecting_newline_3 req
      else if rq_headers req \<noteq> [] \<and> (c = CHR '' '' \<or> c = HT) then proceed header_lws req
      else if \<not> is_char (schar c) \<or> is_ctl (schar c) \<or> is_tspecial (schar c) then bad header_line_start req
      else proceed in_header_name (req\<lparr>rq_headers := rq_headers req @ [\<lparr>hd_name = [c], hd_value = []\<rparr>]\<rparr>))"
| "consume header_lws req c =
     (if c = CR then proceed expecting_newline_2 req
      else if c = CHR '' '' \<or> c = HT then proceed header_lws req
      else if is_ctl (schar c) then bad header_lws req
      else ebind (back_header (\<lambda>h. h\<lparr>hd_value := hd_value h @ [c]\<rparr>) req) (proceed in_header_value))"
| "consume in_header_name req c =
     (if c = CHR '':'' then proceed space_before_header_value req
      else if \<not> is_char (schar c) \<or> is_ctl (schar c) \<or> is_tspecial (schar c) then bad in_header_name req
      else ebind (back_header (\<lambda>h. h\<lparr>hd_name := hd_name h @ [c]\<rparr>) req) (proceed in_header_name))"
| "consume space_before_header_value req c = expect c (CHR '' '') space_before_header_value in_header_value req"
| "consume in_header_value req c =
     (if c = CR then proceed expecting_newline_2 req
      else if is_ctl (schar c) then bad in_header_value req
      else ebind (back_header (\<lambda>h. h\<lparr>hd_value := hd_value h @ [c]\<rparr>) req) (proceed in_header_value))"
| "consume expecting_newline_2 req c = expect c LF expecting_newline_2 header_line_start req"
| "consume expecting_newline_3 req c =
     (if c = LF then Inr (Ttrue, expecting_newline_3, req\<lparr>is_bad := False, is_ready := True\<rparr>)
      else bad expecting_newline_3 req)"

text \<open>The result comes with what is left of the input.\<close>

fun parse :: "parser_state \<Rightarrow> request \<Rightarrow> string \<Rightarrow> (tribool \<times> string \<times> parser_state \<times> request) result" where
  "parse st req [] = Inr (Indeterminate, [], st, req)"
| "parse st req (c # cs) =
     ebind (consume st req c) (\<lambda>(r, st', req').
     if r = Indeterminate then parse st' req' cs else Inr (r, cs, st', req'))"

section \<open>Reading what was printed\<close>

definition crlf :: string where
  "crlf = [CR, LF]"

definition print_header :: "http_header \<Rightarrow> string" where
  "print_header h = hd_name h @ '': '' @ hd_value h @ crlf"

definition print_request :: "request \<Rightarrow> string" where
  "print_request r = rq_method r @ '' '' @ rq_uri r @ '' HTTP/'' @ show_nat (nat (http_version_major r)) @ ''.''
     @ show_nat (nat (http_version_minor r)) @ crlf @ concat (map print_header (rq_headers r)) @ crlf"

definition valid_header :: "http_header \<Rightarrow> bool" where
  "valid_header h \<longleftrightarrow> hd_name h \<noteq> [] \<and> list_all token_char (hd_name h) \<and> list_all (\<lambda>c. \<not> is_ctl (schar c)) (hd_value h)"

definition valid_version :: "int \<Rightarrow> bool" where
  "valid_version v \<longleftrightarrow> 0 \<le> v \<and> v + 57 < 2 ^ 31"

definition valid_request :: "request \<Rightarrow> bool" where
  "valid_request r \<longleftrightarrow> rq_method r \<noteq> [] \<and> list_all token_char (rq_method r)
     \<and> list_all (\<lambda>c. \<not> is_ctl (schar c) \<and> c \<noteq> CHR '' '') (rq_uri r)
     \<and> valid_version (http_version_major r) \<and> valid_version (http_version_minor r) \<and> list_all valid_header (rq_headers r)"

lemma parse_append:
  "parse st req (xs @ ys) = ebind (parse st req xs) (\<lambda>(r, rest, st', req').
     if r = Indeterminate then parse st' req' ys else Inr (r, rest @ ys, st', req'))"
  by (induction xs arbitrary: st req) (auto simp: ebind_def split: sum.splits)

text \<open>One lemma per part of a request, each from the state in which the part before it ends.\<close>

lemma token_facts:
  assumes "token_char c"
  shows "is_char (schar c)" "\<not> is_ctl (schar c)" "\<not> is_tspecial (schar c)" "c \<noteq> CHR '' ''" "c \<noteq> CHR '':''" "c \<noteq> CR" "c \<noteq> HT"
  using assms by (auto simp: token_char_def is_tspecial_def is_ctl_def CR_def HT_def schar_def)

lemma parse_method_tail:
  "list_all token_char m \<Longrightarrow> parse in_method req (m @ xs) = parse in_method (req\<lparr>rq_method := rq_method req @ m\<rparr>) xs"
  by (induction m arbitrary: req) (simp_all add: token_facts proceed_def)

lemma parse_method:
  assumes "m \<noteq> []" and "list_all token_char m"
  shows "parse method_start req (m @ CHR '' '' # xs) = parse in_uri (req\<lparr>rq_method := rq_method req @ m\<rparr>) xs"
  using assms parse_method_tail [of "tl m"] by (cases m) (simp_all add: token_facts proceed_def)

lemma parse_uri:
  "list_all (\<lambda>c. \<not> is_ctl (schar c) \<and> c \<noteq> CHR '' '') u \<Longrightarrow>
     parse in_uri req (u @ CHR '' '' # xs) = parse http_version_h (req\<lparr>rq_uri := rq_uri req @ u\<rparr>) xs"
  by (induction u arbitrary: req) (simp_all add: proceed_def)

lemma parse_http:
  "parse http_version_h req (''HTTP/'' @ xs)
     = parse http_version_major_start (req\<lparr>http_version_major := 0, http_version_minor := 0\<rparr>) xs"
  by (simp add: expect_def proceed_def)

lemma digit_facts:
  assumes "k < 10"
  shows "schar (digit k) = 48 + int k" "is_digit (schar (digit k))" "digit k \<noteq> CHR ''.''" "digit k \<noteq> CR"
proof -
  have n: "of_char (digit k) = 48 + k" using assms by (simp add: digit_def)
  have "(of_char (digit k) :: int) = 48 + int k" using n of_nat_of_char [of "digit k", where 'a = int] by simp
  then show "schar (digit k) = 48 + int k" "is_digit (schar (digit k))" using assms by (simp_all add: schar_def is_digit_def)
  show "digit k \<noteq> CHR ''.''" "digit k \<noteq> CR" using n by (auto simp: CR_def)
qed

lemma version_digit_ok:
  "k < 10 \<Longrightarrow> 0 \<le> v \<Longrightarrow> v * 10 + int k + 48 < 2 ^ 31 \<Longrightarrow> version_digit v (digit k) = Inr (v * 10 + int k)"
  by (simp add: version_digit_def checked_int_def digit_facts(1))

lemma version_digit_overflow:
  "k < 10 \<Longrightarrow> 0 \<le> v \<Longrightarrow> 2 ^ 31 \<le> v * 10 + int k + 48 \<Longrightarrow> version_digit v (digit k) = Inl UndefinedBehaviour"
  by (simp add: version_digit_def checked_int_def digit_facts(1))

text \<open>A number in decimal, read from one state by another that repeats.\<close>

lemma parse_number:
  assumes "\<And>k xs. k < 10 \<Longrightarrow> parse st (f 0) (digit k # xs) = parse st' (f (int k)) xs"
    and "\<And>v k xs. k < 10 \<Longrightarrow> 0 \<le> v \<Longrightarrow> v * 10 + int k + 48 < 2 ^ 31 \<Longrightarrow> parse st' (f v) (digit k # xs) = parse st' (f (v * 10 + int k)) xs"
    and "int n + 48 < 2 ^ 31"
  shows "parse st (f 0) (show_nat n @ xs) = parse st' (f (int n)) xs"
  using assms(3)
proof (induction n arbitrary: xs rule: show_nat.induct)
  case (1 n)
  show ?case
  proof (cases "n < 10")
    case True
    then show ?thesis using assms(1) by (simp add: show_nat.simps [of n])
  next
    case False
    have "int (n div 10) * 10 + int (n mod 10) = int n" by (simp add: zdiv_int zmod_int)
    moreover have "int (n div 10) + 48 < 2 ^ 31" using 1(2) by simp
    ultimately show ?thesis
      using 1(1) [OF False, of "digit (n mod 10) # xs"] assms(2) [of "n mod 10" "int (n div 10)" xs] 1(2) False
      by (simp add: show_nat.simps [of n])
  qed
qed

lemma parse_major:
  assumes "valid_version v"
  shows "parse http_version_major_start (req\<lparr>http_version_major := 0\<rparr>) (show_nat (nat v) @ CHR ''.'' # xs)
    = parse http_version_minor_start (req\<lparr>http_version_major := v\<rparr>) xs"
proof -
  have "parse http_version_major_start (req\<lparr>http_version_major := 0\<rparr>) (show_nat (nat v) @ CHR ''.'' # xs)
      = parse in_http_version_major (req\<lparr>http_version_major := int (nat v)\<rparr>) (CHR ''.'' # xs)"
    using assms
    by (intro parse_number [where f = "\<lambda>v. req\<lparr>http_version_major := v\<rparr>"])
      (simp_all add: digit_facts(2-4) version_digit_ok proceed_def valid_version_def)
  then show ?thesis using assms by (simp add: valid_version_def proceed_def)
qed

lemma parse_minor:
  assumes "valid_version v"
  shows "parse http_version_minor_start (req\<lparr>http_version_minor := 0\<rparr>) (show_nat (nat v) @ CR # LF # xs)
    = parse header_line_start (req\<lparr>http_version_minor := v\<rparr>) xs"
proof -
  have "parse http_version_minor_start (req\<lparr>http_version_minor := 0\<rparr>) (show_nat (nat v) @ CR # LF # xs)
      = parse in_http_version_minor (req\<lparr>http_version_minor := int (nat v)\<rparr>) (CR # LF # xs)"
    using assms
    by (intro parse_number [where f = "\<lambda>v. req\<lparr>http_version_minor := v\<rparr>"])
      (simp_all add: digit_facts(2-4) version_digit_ok proceed_def valid_version_def)
  then show ?thesis using assms by (simp add: valid_version_def proceed_def expect_def)
qed

lemma parse_name:
  "list_all token_char nm \<Longrightarrow> rq_headers req = hs @ [h] \<Longrightarrow>
     parse in_header_name req (nm @ xs) = parse in_header_name (req\<lparr>rq_headers := hs @ [h\<lparr>hd_name := hd_name h @ nm\<rparr>]\<rparr>) xs"
proof (induction nm arbitrary: req h)
  case Nil
  have "req\<lparr>rq_headers := hs @ [h]\<rparr> = req" using Nil(2) [symmetric] by simp
  then show ?case by simp
next
  case (Cons c nm)
  then show ?case by (simp add: token_facts back_header_def proceed_def)
qed

lemma parse_value:
  "list_all (\<lambda>c. \<not> is_ctl (schar c)) v \<Longrightarrow> rq_headers req = hs @ [h] \<Longrightarrow>
     parse in_header_value req (v @ crlf @ xs) = parse header_line_start (req\<lparr>rq_headers := hs @ [h\<lparr>hd_value := hd_value h @ v\<rparr>]\<rparr>) xs"
proof (induction v arbitrary: req h)
  case Nil
  have "req\<lparr>rq_headers := hs @ [h]\<rparr> = req" using Nil(2) [symmetric] by simp
  then show ?case by (simp add: crlf_def proceed_def expect_def)
next
  case (Cons c v)
  then have "c \<noteq> CR" by (auto simp: CR_def is_ctl_def schar_def)
  with Cons show ?case by (simp add: back_header_def proceed_def)
qed

lemma parse_header:
  assumes "valid_header h"
  shows "parse header_line_start req (print_header h @ xs) = parse header_line_start (req\<lparr>rq_headers := rq_headers req @ [h]\<rparr>) xs"
proof -
  obtain c nm where nm: "hd_name h = c # nm" "token_char c" "list_all token_char nm" and v: "list_all (\<lambda>c. \<not> is_ctl (schar c)) (hd_value h)"
    using assms by (cases "hd_name h") (auto simp: valid_header_def)
  let ?r = "\<lambda>n v. req\<lparr>rq_headers := rq_headers req @ [\<lparr>hd_name = n, hd_value = v\<rparr>]\<rparr>"
  have "parse header_line_start req (print_header h @ xs) = parse in_header_name (?r [c] []) (nm @ '': '' @ hd_value h @ crlf @ xs)"
    using nm by (simp add: print_header_def token_facts proceed_def)
  also have "\<dots> = parse in_header_value (?r (c # nm) []) (hd_value h @ crlf @ xs)"
    using parse_name [OF nm(3), of "?r [c] []" "rq_headers req" "\<lparr>hd_name = [c], hd_value = []\<rparr>"] by (simp add: proceed_def expect_def)
  also have "\<dots> = parse header_line_start (?r (c # nm) (hd_value h)) xs"
    using parse_value [OF v, of "?r (c # nm) []" "rq_headers req" "\<lparr>hd_name = c # nm, hd_value = []\<rparr>"] by simp
  also have "\<lparr>hd_name = c # nm, hd_value = hd_value h\<rparr> = h" using nm(1) by (cases h) simp
  finally show ?thesis .
qed

lemma parse_headers:
  "list_all valid_header hs \<Longrightarrow> parse header_line_start req (concat (map print_header hs) @ xs)
     = parse header_line_start (req\<lparr>rq_headers := rq_headers req @ hs\<rparr>) xs"
  by (induction hs arbitrary: req) (simp_all add: parse_header)

text \<open>
  C35: A valid request that is printed and then read by the parser, from its initial state and into a
  new request, is accepted exactly at its last character and is the request that was printed; and
  it does not matter in which pieces the characters arrive.
\<close>

theorem parse_print:
  assumes "valid_request r"
  shows "parse method_start (init_new_request a b) (print_request r @ rest)
      = Inr (Ttrue, rest, expecting_newline_3, r\<lparr>is_ready := True, is_bad := False\<rparr>)
    \<and> parse st req (xs @ ys) = ebind (parse st req xs) (\<lambda>(t, left, st', req').
        if t = Indeterminate then parse st' req' ys else Inr (t, left @ ys, st', req'))"
proof -
  have v: "rq_method r \<noteq> []" "list_all token_char (rq_method r)" "list_all (\<lambda>c. \<not> is_ctl (schar c) \<and> c \<noteq> CHR '' '') (rq_uri r)"
    "valid_version (http_version_major r)" "valid_version (http_version_minor r)" "list_all valid_header (rq_headers r)"
    using assms by (simp_all add: valid_request_def)
  let ?r = "\<lambda>hs. \<lparr>rq_method = rq_method r, rq_uri = rq_uri r, http_version_major = http_version_major r,
    http_version_minor = http_version_minor r, rq_headers = hs, is_ready = False, is_bad = False\<rparr>"
  let ?hs = "concat (map print_header (rq_headers r)) @ crlf @ rest"
  have "parse method_start (init_new_request a b) (print_request r @ rest)
      = parse http_version_h (init_new_request a b\<lparr>rq_method := rq_method r, rq_uri := rq_uri r\<rparr>)
          (''HTTP/'' @ show_nat (nat (http_version_major r)) @ CHR ''.'' # show_nat (nat (http_version_minor r)) @ CR # LF # ?hs)"
    using parse_method [OF v(1,2)] parse_uri [OF v(3)] by (simp add: print_request_def crlf_def init_new_request_def)
  also have "\<dots> = parse header_line_start (?r []) ?hs"
    unfolding parse_http
    using parse_major [OF v(4), of "init_new_request a b\<lparr>rq_method := rq_method r, rq_uri := rq_uri r, http_version_minor := 0\<rparr>"]
      parse_minor [OF v(5), of "init_new_request a b\<lparr>rq_method := rq_method r, rq_uri := rq_uri r, http_version_major := http_version_major r\<rparr>"]
    by (simp add: init_new_request_def)
  also have "\<dots> = Inr (Ttrue, rest, expecting_newline_3, r\<lparr>is_ready := True, is_bad := False\<rparr>)"
    using parse_headers [OF v(6)] by (cases r) (simp add: crlf_def proceed_def)
  finally show ?thesis using parse_append by blast
qed

theorem parse_print_witness:
  "parse method_start (init_new_request 7 9) (print_request \<lparr>rq_method = ''GET'', rq_uri = ''/CAPS/HTT/x/'', http_version_major = 1,
      http_version_minor = 1, rq_headers = [\<lparr>hd_name = ''Range'', hd_value = ''bytes=0-9''\<rparr>], is_ready = False, is_bad = False\<rparr> @ ''G'')
   = Inr (Ttrue, ''G'', expecting_newline_3, \<lparr>rq_method = ''GET'', rq_uri = ''/CAPS/HTT/x/'', http_version_major = 1,
      http_version_minor = 1, rq_headers = [\<lparr>hd_name = ''Range'', hd_value = ''bytes=0-9''\<rparr>], is_ready = True, is_bad = False\<rparr>)"
proof -
  let ?r = "\<lparr>rq_method = ''GET'', rq_uri = ''/CAPS/HTT/x/'', http_version_major = 1,
      http_version_minor = 1, rq_headers = [\<lparr>hd_name = ''Range'', hd_value = ''bytes=0-9''\<rparr>], is_ready = False, is_bad = False\<rparr>"
  have "valid_request ?r"
    by (simp add: valid_request_def valid_header_def valid_version_def token_char_def is_char_def is_ctl_def is_tspecial_def schar_def)
  from parse_print [OF this, THEN conjunct1, of 7 9 "''G''"] show ?thesis unfolding request.update_convs .
qed

text \<open>Beyond the range of \<open>int\<close> a version number is never read.\<close>

lemma parse_major_large:
  "parse http_version_major_start (req\<lparr>http_version_major := 0\<rparr>) (show_nat n)
     \<in> {Inl UndefinedBehaviour, Inr (Indeterminate, [], in_http_version_major, req\<lparr>http_version_major := int n\<rparr>)}
   \<and> (2 ^ 31 \<le> int n + 48 \<longrightarrow> parse http_version_major_start (req\<lparr>http_version_major := 0\<rparr>) (show_nat n) = Inl UndefinedBehaviour)"
proof (induction n rule: show_nat.induct)
  case (1 n)
  show ?case
  proof (cases "n < 10")
    case True
    then show ?thesis
      by (simp add: show_nat.simps [of n] digit_facts(2-4) version_digit_ok proceed_def)
  next
    case False
    let ?d = "digit (n mod 10)" and ?v = "int (n div 10)"
    have n: "?v * 10 + int (n mod 10) = int n" by (simp add: zdiv_int zmod_int)
    have s: "show_nat n = show_nat (n div 10) @ [?d]" using False by (simp add: show_nat.simps [of n])
    have "version_digit ?v ?d = (if int n + 48 < 2 ^ 31 then Inr (int n) else Inl UndefinedBehaviour)"
      using version_digit_ok [of "n mod 10" ?v] version_digit_overflow [of "n mod 10" ?v] unfolding n by simp
    then show ?thesis
      using 1 [OF False] unfolding s parse_append
      by (auto simp: digit_facts(2-4) proceed_def)
  qed
qed

text \<open>
  C36: A request whose major version is a number of at least \<open>2 ^ 31\<close> in decimal makes the parser
  overflow a signed integer, whatever its method and target are.
\<close>

theorem parse_version_overflow:
  assumes "m \<noteq> []" and "list_all token_char m" and "list_all (\<lambda>c. \<not> is_ctl (schar c) \<and> c \<noteq> CHR '' '') u" and "2 ^ 31 \<le> int n"
  shows "parse method_start (init_new_request a b) (m @ '' '' @ u @ '' HTTP/'' @ show_nat n @ rest) = Inl UndefinedBehaviour"
proof -
  have "parse method_start (init_new_request a b) (m @ '' '' @ u @ '' HTTP/'' @ show_nat n @ rest)
      = parse http_version_h (init_new_request a b\<lparr>rq_method := m, rq_uri := u\<rparr>) (''HTTP/'' @ show_nat n @ rest)"
    using parse_method [OF assms(1,2)] parse_uri [OF assms(3)] by (simp add: init_new_request_def)
  also have "\<dots> = parse http_version_major_start (init_new_request a b\<lparr>rq_method := m, rq_uri := u, http_version_minor := 0, http_version_major := 0\<rparr>)
      (show_nat n @ rest)"
    unfolding parse_http by (simp add: init_new_request_def)
  also have "\<dots> = Inl UndefinedBehaviour"
    unfolding parse_append
    using parse_major_large [of "init_new_request a b\<lparr>rq_method := m, rq_uri := u, http_version_minor := 0\<rparr>" n] assms(4) by simp
  finally show ?thesis .
qed

theorem parse_version_overflow_witness:
  "parse method_start (init_new_request 0 0) (''GET'' @ '' '' @ ''/'' @ '' HTTP/'' @ show_nat 9999999999 @ ''.1'') = Inl UndefinedBehaviour"
  by (rule parse_version_overflow)
    (simp_all add: token_char_def is_char_def is_ctl_def is_tspecial_def schar_def)

end
