(* ===== verification/HttpServer.thy ===== *)
theory HttpServer
  imports HttpParser LruCache Uuid
begin

text \<open>
  The HTTP front end behind the parser (\<open>src/aperture\<close>): rate limits (\<open>TokenBucket.cpp\<close>), replies
  (\<open>reply.cpp\<close>), the data inside an asset (\<open>Asset.cpp\<close>, \<open>CloudFilesAsset.cpp\<close>) and the handler of
  requests with its capabilities (\<open>request_handler.cpp\<close>).  The asset servers behind it and the
  connections are its surroundings: what the handler asks of them is a list of effects.
\<close>

section \<open>Token buckets\<close>

text \<open>
  Times are nanoseconds of the steady clock; \<open>size_t\<close> has 64 bits.  The product of the rate and the
  time since the last drip is a signed 64-bit one; it fits for more than a century, and beyond is taken
  modulo \<open>2 ^ 64\<close> here.
\<close>

record TokenBucket =
  tb_maxBurst :: u64
  tb_tokens :: u64
  tb_lastDrip :: int
  tb_tokensPerMS :: int

definition TokenBucket_new :: "int \<Rightarrow> int \<Rightarrow> TokenBucket" where
  "TokenBucket_new now maxBandwidth =
     \<lparr>tb_maxBurst = word_of_int maxBandwidth, tb_tokens = word_of_int maxBandwidth, tb_lastDrip = now,
      tb_tokensPerMS = (if maxBandwidth div 1000 \<le> 0 then 1 else maxBandwidth div 1000)\<rparr>"

text \<open>The clock is read twice.\<close>

definition drip :: "int \<Rightarrow> int \<Rightarrow> TokenBucket \<Rightarrow> bool \<times> TokenBucket" where
  "drip now now' b =
     (let deltaTime = (now - tb_lastDrip b) div 1000000 in
      if deltaTime \<le> 0 then (False, b)
      else let tokens = word_of_int (tb_tokensPerMS b * deltaTime) in
           (True, b\<lparr>tb_tokens := min (tb_tokens b + tokens) (tb_maxBurst b), tb_lastDrip := now'\<rparr>))"

definition removeTokens :: "int \<Rightarrow> int \<Rightarrow> u64 \<Rightarrow> TokenBucket \<Rightarrow> bool \<times> TokenBucket" where
  "removeTokens now now' amount b =
     (let b = snd (drip now now' b) in
      if tb_tokens b \<ge> amount then (True, b\<lparr>tb_tokens := tb_tokens b - amount\<rparr>) else (False, b))"

definition getMaxBurst :: "TokenBucket \<Rightarrow> u64" where
  "getMaxBurst b = tb_maxBurst b"

section \<open>Replies\<close>

datatype status_type =
    http_ok | http_created | http_accepted | http_no_content | http_partial_content | http_multiple_choices
  | http_moved_permanently | http_moved_temporarily | http_not_modified | http_bad_request | http_unauthorized
  | http_forbidden | http_not_found | http_range_error | http_internal_server_error | http_not_implemented
  | http_bad_gateway | http_service_unavailable

fun to_buffer :: "status_type \<Rightarrow> string" where
  "to_buffer http_ok = ''HTTP/1.1 200 OK'' @ crlf"
| "to_buffer http_created = ''HTTP/1.1 201 Created'' @ crlf"
| "to_buffer http_accepted = ''HTTP/1.1 202 Accepted'' @ crlf"
| "to_buffer http_no_content = ''HTTP/1.1 204 No Content'' @ crlf"
| "to_buffer http_partial_content = ''HTTP/1.1 206 Partial Content'' @ crlf"
| "to_buffer http_multiple_choices = ''HTTP/1.1 300 Multiple Choices'' @ crlf"
| "to_buffer http_moved_permanently = ''HTTP/1.1 301 Moved Permanently'' @ crlf"
| "to_buffer http_moved_temporarily = ''HTTP/1.1 302 Moved Temporarily'' @ crlf"
| "to_buffer http_not_modified = ''HTTP/1.1 304 Not Modified'' @ crlf"
| "to_buffer http_bad_request = ''HTTP/1.1 400 Bad Request'' @ crlf"
| "to_buffer http_unauthorized = ''HTTP/1.1 401 Unauthorized'' @ crlf"
| "to_buffer http_forbidden = ''HTTP/1.1 403 Forbidden'' @ crlf"
| "to_buffer http_not_found = ''HTTP/1.1 404 Not Found'' @ crlf"
| "to_buffer http_range_error = ''HTTP/1.1 416 Requested Range Not Satisfiable'' @ crlf"
| "to_buffer http_internal_server_error = ''HTTP/1.1 500 Internal Server Error'' @ crlf"
| "to_buffer http_not_implemented = ''HTTP/1.1 501 Not Implemented'' @ crlf"
| "to_buffer http_bad_gateway = ''HTTP/1.1 502 Bad Gateway'' @ crlf"
| "to_buffer http_service_unavailable = ''HTTP/1.1 503 Service Unavailable'' @ crlf"

definition stock_page :: "string \<Rightarrow> string \<Rightarrow> string" where
  "stock_page title h1 = ''<html><head><title>'' @ title @ ''</title></head><body><h1>'' @ h1 @ ''</h1></body></html>''"

text \<open>There is no case for partial content and for a range error: they get the text of an internal server error.\<close>

fun stock_to_string :: "status_type \<Rightarrow> string" where
  "stock_to_string http_ok = []"
| "stock_to_string http_created = stock_page ''Created'' ''201 Created''"
| "stock_to_string http_accepted = stock_page ''Accepted'' ''202 Accepted''"
| "stock_to_string http_no_content = stock_page ''No Content'' ''204 Content''"
| "stock_to_string http_multiple_choices = stock_page ''Multiple Choices'' ''300 Multiple Choices''"
| "stock_to_string http_moved_permanently = stock_page ''Moved Permanently'' ''301 Moved Permanently''"
| "stock_to_string http_moved_temporarily = stock_page ''Moved Temporarily'' ''302 Moved Temporarily''"
| "stock_to_string http_not_modified = stock_page ''Not Modified'' ''304 Not Modified''"
| "stock_to_string http_bad_request = stock_page ''Bad Request'' ''400 Bad Request''"
| "stock_to_string http_unauthorized = stock_page ''Unauthorized'' ''401 Unauthorized''"
| "stock_to_string http_forbidden = stock_page ''Forbidden'' ''403 Forbidden''"
| "stock_to_string http_not_found = stock_page ''Not Found'' ''404 Not Found''"
| "stock_to_string http_internal_server_error = stock_page ''Internal Server Error'' ''500 Internal Server Error''"
| "stock_to_string http_not_implemented = stock_page ''Not Implemented'' ''501 Not Implemented''"
| "stock_to_string http_bad_gateway = stock_page ''Bad Gateway'' ''502 Bad Gateway''"
| "stock_to_string http_service_unavailable = stock_page ''Service Unavailable'' ''503 Service Unavailable''"
| "stock_to_string _ = stock_page ''Internal Server Error'' ''500 Internal Server Error''"

text \<open>\<open>bytes_sent\<close> is \<open>None\<close> while it is not initialised.\<close>

record reply =
  rp_status :: status_type
  rp_headers :: "http_header list"
  rp_content :: string
  rp_token :: string
  bytes_sent :: "nat option"
  rp_token_bucket :: "TokenBucket option"

definition stock_reply :: "status_type \<Rightarrow> http_header option \<Rightarrow> reply" where
  "stock_reply status addnlHeader =
     (let content = stock_to_string status in
      \<lparr>rp_status = status,
       rp_headers = [\<lparr>hd_name = ''Content-Length'', hd_value = show_nat (length content)\<rparr>,
                     \<lparr>hd_name = ''Content-Type'', hd_value = ''text/html''\<rparr>]
         @ (case addnlHeader of None \<Rightarrow> [] | Some h \<Rightarrow> if hd_name h = [] then [] else [h]),
       rp_content = content, rp_token = [], bytes_sent = None, rp_token_bucket = None\<rparr>)"

definition header_buffers :: "reply \<Rightarrow> string" where
  "header_buffers rep = to_buffer (rp_status rep) @ concat (map print_header (rp_headers rep)) @ crlf"

definition to_buffers :: "reply \<Rightarrow> string" where
  "to_buffers rep = to_buffer (rp_status rep) @ concat (map print_header (rp_headers rep)) @ crlf @ rp_content rep"

definition reply_reset :: "reply \<Rightarrow> reply" where
  "reply_reset rep = rep\<lparr>rp_status := http_ok, rp_content := [], rp_headers := [], bytes_sent := Some 0, rp_token_bucket := None\<rparr>"

definition remaining_bytes :: "reply \<Rightarrow> u64 result" where
  "remaining_bytes rep =
     (case bytes_sent rep of None \<Rightarrow> Inl UndefinedBehaviour | Some n \<Rightarrow> Inr (of_nat (length (rp_content rep)) - of_nat n))"

definition get_next_chunk :: "u64 \<Rightarrow> reply \<Rightarrow> string result" where
  "get_next_chunk maxSize rep =
     ebind (remaining_bytes rep) (\<lambda>rest.
     case bytes_sent rep of
       None \<Rightarrow> Inl UndefinedBehaviour
     | Some n \<Rightarrow> if n \<le> length (rp_content rep) then Inr (take (unat (min maxSize rest)) (drop n (rp_content rep)))
                else Inl UndefinedBehaviour)"

section \<open>The data inside an asset\<close>

text \<open>
  An asset of the WHIP server is its bytes; one of the cloud store an id with the type and data of
  its message.
\<close>

datatype IAsset = WhipAsset bytes | CloudFilesAsset string int string

definition NAME_FIELD_SZ_LOC :: u32 where "NAME_FIELD_SZ_LOC = 39"

text \<open>\<open>unsigned int\<close> arithmetic wraps.\<close>

definition findDataLocationAndSize :: "bytes \<Rightarrow> (u32 \<times> u32) result" where
  "findDataLocationAndSize d =
     (let currLoc = NAME_FIELD_SZ_LOC in
      ebind (at d (unat currLoc)) (\<lambda>nameFieldSz.
      let currLoc = currLoc + (ucast nameFieldSz + 1) in
      ebind (at d (unat currLoc)) (\<lambda>descFieldSz.
      let currLoc = currLoc + (ucast descFieldSz + 1) in
      ebind (peek32 d (unat currLoc)) (\<lambda>dataSz. Inr (currLoc + 4, dataSz)))))"

fun getBinaryDataSize :: "IAsset \<Rightarrow> u64 result" where
  "getBinaryDataSize (WhipAsset d) = ebind (findDataLocationAndSize d) (\<lambda>(loc, sz). Inr (ucast sz))"
| "getBinaryDataSize (CloudFilesAsset i t s) = Inr (of_nat (length s))"

fun asset_getType :: "IAsset \<Rightarrow> byte result" where
  "asset_getType (WhipAsset d) = at d 32"
| "asset_getType (CloudFilesAsset i t s) = Inr (word_of_int t)"

text \<open>\<open>storage.append(&v[off], n)\<close>\<close>

definition append_bytes :: "string \<Rightarrow> bytes \<Rightarrow> nat \<Rightarrow> nat \<Rightarrow> string result" where
  "append_bytes storage v off n = ebind (read_string v off n) (\<lambda>s. Inr (storage @ s))"

fun copyAssetData :: "IAsset \<Rightarrow> string \<Rightarrow> (u64 \<times> string) result" where
  "copyAssetData (WhipAsset d) storage =
     ebind (findDataLocationAndSize d) (\<lambda>(dataLoc, dataSz).
     if (ucast (dataLoc + dataSz) :: u64) > of_nat (length d)
     then Inl (RuntimeError ''Asset::copyAssetData(): Copying the full reported data size would overflow buffer'')
     else ebind (append_bytes storage d (unat dataLoc) (unat dataSz)) (\<lambda>s. Inr (ucast dataSz, s)))"
| "copyAssetData (CloudFilesAsset i t s) storage = Inr (of_nat (length s), s)"

text \<open>The range after clamping it to the data, both ends inclusive.\<close>

definition clamp_range :: "u64 \<Rightarrow> u64 \<Rightarrow> u64 \<Rightarrow> u64 \<times> u64" where
  "clamp_range dataSz rngStart rngEnd =
     (let rngEnd = (if rngEnd > dataSz - 1 then dataSz - 1 else rngEnd);
          (rngStart, rngEnd) = (if rngStart > dataSz - 1 then (0, dataSz - 1) else (rngStart, rngEnd))
      in if rngEnd < rngStart then (0, dataSz - 1) else (rngStart, rngEnd))"

fun copyAssetData_range :: "IAsset \<Rightarrow> string \<Rightarrow> u64 \<Rightarrow> u64 \<Rightarrow> (u64 \<times> string) result" where
  "copyAssetData_range (WhipAsset d) storage rngStart rngEnd =
     ebind (findDataLocationAndSize d) (\<lambda>(dataLoc, dataSz).
     if dataSz = 0 then Inr (0, storage)
     else let (rngStart, rngEnd) = clamp_range (ucast dataSz) rngStart rngEnd in
       if ucast dataLoc + rngEnd \<ge> of_nat (length d)
       then Inl (RangeError ''Asset::copyAssetData(): Invalid range sepecification, end of range would overflow buffer'')
       else ebind (append_bytes storage d (unat (ucast dataLoc + rngStart)) (unat (rngEnd - rngStart + 1)))
              (\<lambda>s. Inr (ucast dataSz, s)))"
| "copyAssetData_range (CloudFilesAsset i t s) storage rngStart rngEnd =
     (let dataSz = of_nat (length s) in
      if dataSz = 0 then Inr (0, storage)
      else let (rngStart, rngEnd) = clamp_range dataSz rngStart rngEnd in
           Inr (dataSz, storage @ take (unat (rngEnd - rngStart + 1)) (drop (unat rngStart) s)))"
section \<open>Text of requests\<close>

text \<open>\<open>boost::split\<close> at one character\<close>

fun split_on :: "char \<Rightarrow> string \<Rightarrow> string list" where
  "split_on d [] = [[]]"
| "split_on d (c # cs) =
     (if c = d then [] # split_on d cs
      else case split_on d cs of p # ps \<Rightarrow> (c # p) # ps | [] \<Rightarrow> [[c]])"

definition is_space :: "char \<Rightarrow> bool" where
  "is_space c \<longleftrightarrow> c \<in> {CHR '' '', CHR 0x09, CHR 0x0A, CHR 0x0B, CHR 0x0C, CHR 0x0D}"

definition hex_value :: "char \<Rightarrow> int option" where
  "hex_value c =
     (let n = of_char c in
      if 48 \<le> n \<and> n \<le> 57 then Some (n - 48)
      else if 97 \<le> n \<and> n \<le> 102 then Some (n - 87)
      else if 65 \<le> n \<and> n \<le> 70 then Some (n - 55)
      else None)"

text \<open>\<open>is >> std::hex >> value\<close>\<close>

definition extract_hex :: "string \<Rightarrow> int option" where
  "extract_hex s =
     (let s = dropWhile is_space s;
          neg = (case s of c # _ \<Rightarrow> c = CHR ''-'' | [] \<Rightarrow> False);
          s = (case s of c # cs \<Rightarrow> if c = CHR ''-'' \<or> c = CHR ''+'' then cs else s | [] \<Rightarrow> s);
          s = (if take 2 s \<in> {''0x'', ''0X''} then drop 2 s else s);
          ds = takeWhile (\<lambda>c. hex_value c \<noteq> None) s;
          v = foldl (\<lambda>a c. a * 16 + the (hex_value c)) 0 ds
      in if ds = [] then None else Some (if neg then - v else v))"

fun url_decode :: "string \<Rightarrow> string option" where
  "url_decode [] = Some []"
| "url_decode (c # cs) =
     (if c = CHR ''%'' then
        if length cs \<ge> 2 then
          (case extract_hex (take 2 cs) of
             Some v \<Rightarrow> map_option ((#) (char_of v)) (url_decode (drop 2 cs))
           | None \<Rightarrow> None)
        else None
      else if c = CHR ''+'' then map_option ((#) (CHR '' '')) (url_decode cs)
      else map_option ((#) c) (url_decode cs))"

definition lower_char :: "char \<Rightarrow> char" where
  "lower_char c = (if 65 \<le> (of_char c :: nat) \<and> (of_char c :: nat) \<le> 90 then char_of (of_char c + 32 :: nat) else c)"

type_synonym QueryString = "string \<Rightarrow> string option"

datatype DecodeState = DS_BEGIN | DS_IN_PARAM_NAME | DS_IN_PARAM_VAL | DS_INVALID

text \<open>A completed parameter: name and value are decoded, the name is lowered.\<close>

definition add_param :: "string \<Rightarrow> string \<Rightarrow> QueryString \<Rightarrow> QueryString option" where
  "add_param name val q =
     (case url_decode name of
        None \<Rightarrow> None
      | Some n \<Rightarrow> (case url_decode val of None \<Rightarrow> None | Some v \<Rightarrow> Some (q(map lower_char n \<mapsto> v))))"

fun decode_loop :: "DecodeState \<Rightarrow> string \<Rightarrow> string \<Rightarrow> QueryString \<Rightarrow> string \<Rightarrow> DecodeState \<times> string \<times> string \<times> QueryString" where
  "decode_loop st name val q [] = (st, name, val, q)"
| "decode_loop st name val q (c # cs) =
     (if c = CHR ''?'' then decode_loop DS_IN_PARAM_NAME name val q cs
      else if c = CHR ''&'' \<or> c = CHR '';'' then
        if st = DS_BEGIN \<or> st = DS_IN_PARAM_NAME then (DS_INVALID, name, val, q)
        else (case add_param name val q of
                None \<Rightarrow> (DS_INVALID, name, val, q)
              | Some q' \<Rightarrow> decode_loop DS_BEGIN [] [] q' cs)
      else if c = CHR ''='' then
        if st = DS_BEGIN \<or> st = DS_IN_PARAM_VAL then (DS_INVALID, name, val, q)
        else decode_loop DS_IN_PARAM_VAL name val q cs
      else if st = DS_IN_PARAM_NAME then decode_loop st (name @ [c]) val q cs
      else if st = DS_IN_PARAM_VAL then decode_loop st name (val @ [c]) q cs
      else decode_loop st name val q cs)"

definition decode_query_string :: "string \<Rightarrow> QueryString" where
  "decode_query_string url =
     (case decode_loop DS_BEGIN [] [] (\<lambda>_. None) url of
        (st, name, val, q) \<Rightarrow>
          if st = DS_IN_PARAM_VAL then (case add_param name val q of None \<Rightarrow> q | Some q' \<Rightarrow> q') else q)"

text \<open>\<open>boost::lexical_cast\<close> to an unsigned and to a signed integer.\<close>

definition decimal_value :: "string \<Rightarrow> int" where
  "decimal_value ds = foldl (\<lambda>a c. a * 10 + (schar c - 48)) 0 ds"

definition all_digits :: "string \<Rightarrow> bool" where
  "all_digits ds \<longleftrightarrow> ds \<noteq> [] \<and> list_all (\<lambda>c. is_digit (schar c)) ds"

definition strip_sign :: "string \<Rightarrow> bool \<times> string" where
  "strip_sign s =
     (case s of
        c # cs \<Rightarrow> if c = CHR ''-'' then (True, cs) else if c = CHR ''+'' then (False, cs) else (False, s)
      | [] \<Rightarrow> (False, s))"

definition lexical_cast_uint :: "string \<Rightarrow> u32 result" where
  "lexical_cast_uint s =
     (case strip_sign s of
        (neg, ds) \<Rightarrow>
          if all_digits ds \<and> decimal_value ds < 2 ^ 32
          then Inr (word_of_int (if neg then - decimal_value ds else decimal_value ds))
          else Inl BadLexicalCast)"

definition lexical_cast_int :: "string \<Rightarrow> int result" where
  "lexical_cast_int s =
     (case strip_sign s of
        (neg, ds) \<Rightarrow>
          if all_digits ds \<and> (if neg then decimal_value ds \<le> 2 ^ 31 else decimal_value ds < 2 ^ 31)
          then Inr (if neg then - decimal_value ds else decimal_value ds)
          else Inl BadLexicalCast)"

definition parse_range :: "string \<Rightarrow> (u32 \<times> u32) result" where
  "parse_range rangeStr =
     (if take 6 rangeStr \<noteq> ''bytes='' then Inl (RangeError ''Invalid range'')
      else let specStr = drop 6 rangeStr; strs = split_on (CHR ''-'') specStr in
        case strs of
          [s0, s1] \<Rightarrow>
            if s0 = [] \<and> s1 \<noteq> [] then ebind (lexical_cast_uint s1) (\<lambda>e. Inr (0, e))
            else if s0 \<noteq> [] \<and> s1 = [] then ebind (lexical_cast_uint s0) (\<lambda>b. Inr (b, - 1))
            else if s0 \<noteq> [] \<and> s1 \<noteq> []
            then ebind (lexical_cast_uint s0) (\<lambda>b. ebind (lexical_cast_uint s1) (\<lambda>e. Inr (b, e)))
            else Inl (RangeError (''Invalid range spec: '' @ specStr))
        | _ \<Rightarrow> Inl (RangeError (''Invalid range spec: '' @ specStr)))"

section \<open>The handler\<close>

text \<open>\<open>'c\<close> names the connection whose reply and completion callback a request carries.\<close>

record 'c PackedRequestInfo =
  AssetId :: string
  pr_conn :: 'c
  pr_reply :: reply
  pr_query :: QueryString
  pr_request :: request
  ServedFromCache :: bool
  ServedFromWhip :: bool
  ServedFromCF :: bool

text \<open>What the handler asks of its surroundings, in order.\<close>

datatype 'c http_effect =
    Completed 'c reply
  | WhipGetAsset "'c PackedRequestInfo"
  | CfGetAsset "'c PackedRequestInfo"

record 'c request_handler =
  rh_whip :: bool
  rh_cf :: bool
  rh_capsToken :: string
  rh_validCapIds :: "string set"
  rh_queuedRequests :: "string \<Rightarrow> 'c PackedRequestInfo list option"
  rh_capsBuckets :: "string \<Rightarrow> TokenBucket option"
  rh_useCache :: bool
  rh_assetCache :: "(string, IAsset) LRUCache option"
  rh_effects :: "'c http_effect list"

definition request_handler_new :: "bool \<Rightarrow> bool \<Rightarrow> string \<Rightarrow> 'c request_handler" where
  "request_handler_new whip cf capsToken =
     \<lparr>rh_whip = whip, rh_cf = cf, rh_capsToken = capsToken, rh_validCapIds = {}, rh_queuedRequests = (\<lambda>_. None),
      rh_capsBuckets = (\<lambda>_. None), rh_useCache = False, rh_assetCache = None, rh_effects = []\<rparr>"

definition initAssetCache :: "u32 \<Rightarrow> ('c request_handler, unit) action" where
  "initAssetCache maxSize = amodify (\<lambda>h. h\<lparr>rh_assetCache := Some (LRUCache_new (ucast maxSize)), rh_useCache := True\<rparr>)"

definition getBucket :: "string \<Rightarrow> 'c request_handler \<Rightarrow> TokenBucket option" where
  "getBucket caps h = rh_capsBuckets h caps"

definition effect :: "'c http_effect \<Rightarrow> ('c request_handler, unit) action" where
  "effect e = amodify (\<lambda>h. h\<lparr>rh_effects := rh_effects h @ [e]\<rparr>)"

text \<open>\<open>rep = stock_reply(status); completionCallback();\<close>\<close>

definition complete_stock :: "status_type \<Rightarrow> 'c \<Rightarrow> ('c request_handler, unit) action" where
  "complete_stock status conn = effect (Completed conn (stock_reply status None))"

definition BinarySizeCalculator :: "IAsset SizeCalculator" where
  "BinarySizeCalculator =
     \<lparr>on_add = (\<lambda>item n. ebind (getBinaryDataSize item) (\<lambda>sz. Inr (n + (sz + ucast TOTAL_OVERHEAD)))),
      on_remove = (\<lambda>item n. ebind (getBinaryDataSize item) (\<lambda>sz. Inr (n - (sz + ucast TOTAL_OVERHEAD))))\<rparr>"

text \<open>The reply to a request for which there is an asset; each range header is parsed, the last one counts.\<close>

fun range_header :: "http_header list \<Rightarrow> (u32 \<times> u32) option \<Rightarrow> (u32 \<times> u32) option result" where
  "range_header [] r = Inr r"
| "range_header (h # hs) r =
     (if hd_name h = ''Range'' then ebind (parse_range (hd_value h)) (\<lambda>x. range_header hs (Some x)) else range_header hs r)"

definition http_sendResponse :: "'c PackedRequestInfo \<Rightarrow> IAsset \<Rightarrow> string \<Rightarrow> reply result" where
  "http_sendResponse reqInfo asset contentType =
     ebind (range_header (rq_headers (pr_request reqInfo)) None) (\<lambda>rng.
     let rep = pr_reply reqInfo in
     ebind (case rng of
              Some (b, e) \<Rightarrow> copyAssetData_range asset (rp_content rep) (ucast b) (ucast e)
            | None \<Rightarrow> copyAssetData asset (rp_content rep)) (\<lambda>(fullSz, content).
     let rngEnd = (case rng of Some (b, e) \<Rightarrow> ucast e | None \<Rightarrow> 0) :: u64;
         rngEnd = (if rngEnd > fullSz - 1 then fullSz - 1 else rngEnd);
         rep = rep\<lparr>rp_content := content,
                  rp_headers := [\<lparr>hd_name = ''Content-Length'', hd_value = show_nat (length content)\<rparr>,
                                 \<lparr>hd_name = ''Content-Type'', hd_value = contentType\<rparr>]\<rparr>
     in case rng of
          Some (b, e) \<Rightarrow>
            if fullSz \<noteq> of_nat (length content)
            then Inr (rep\<lparr>rp_status := http_partial_content,
                   rp_headers := rp_headers rep @ [\<lparr>hd_name = ''Content-Range'',
                     hd_value = ''bytes '' @ show_nat (unat b) @ ''-'' @ show_nat (unat rngEnd) @ ''/'' @ show_nat (unat fullSz)\<rparr>]\<rparr>)
            else Inr (rep\<lparr>rp_status := http_ok\<rparr>)
        | None \<Rightarrow> Inr (rep\<lparr>rp_status := http_ok\<rparr>)))"

definition AT_TEXTURE :: byte where "AT_TEXTURE = 0"
definition AT_MESH :: byte where "AT_MESH = 49"

definition cache_asset :: "'c PackedRequestInfo \<Rightarrow> IAsset \<Rightarrow> ('c request_handler, unit) action" where
  "cache_asset reqInfo asset =
     abind (aget rh_assetCache) (\<lambda>c.
     case c of
       Some l \<Rightarrow>
         if \<not> ServedFromCache reqInfo
         then abind (alift (lru_insert BinarySizeCalculator l (AssetId reqInfo) asset)) (\<lambda>l'.
              amodify (\<lambda>h. h\<lparr>rh_assetCache := Some l'\<rparr>))
         else areturn ()
     | None \<Rightarrow> areturn ())"

text \<open>The type that is logged for an asset of the cloud store; the cast of another asset is a null pointer.\<close>

fun getFullType :: "IAsset \<Rightarrow> int result" where
  "getFullType (CloudFilesAsset i t s) = Inr t"
| "getFullType (WhipAsset d) = Inl UndefinedBehaviour"

definition asset_response_callback :: "'c PackedRequestInfo \<Rightarrow> IAsset option \<Rightarrow> ('c request_handler, unit) action" where
  "asset_response_callback reqInfo asset =
     (case asset of
        None \<Rightarrow>
          abind (aget rh_cf) (\<lambda>cf.
          if ServedFromWhip reqInfo \<and> cf
          then effect (CfGetAsset (reqInfo\<lparr>ServedFromWhip := False, ServedFromCF := True\<rparr>))
          else complete_stock http_not_found (pr_conn reqInfo))
      | Some a \<Rightarrow>
          abind (alift (asset_getType a)) (\<lambda>t.
          if t \<noteq> AT_TEXTURE \<and> t \<noteq> AT_MESH then
            abind (alift (if ServedFromCF reqInfo then getFullType a else Inr 0)) (\<lambda>_.
            complete_stock http_not_found (pr_conn reqInfo))
          else
            abind (cache_asset reqInfo a) (\<lambda>_.
            abind (alift (getBinaryDataSize a)) (\<lambda>errorReportingFullSz.
            abind (acatch
                     (alift (http_sendResponse reqInfo a (if t = AT_TEXTURE then ''image/x-j2c'' else ''application/vnd.ll.mesh'')))
                     (\<lambda>e. areturn (case e of
                        RangeError _ \<Rightarrow> stock_reply http_range_error (Some \<lparr>hd_name = ''Content-Range'',
                          hd_value = ''bytes 0-'' @ show_nat (unat (errorReportingFullSz - 1)) @ ''/'' @ show_nat (unat errorReportingFullSz)\<rparr>)
                      | _ \<Rightarrow> stock_reply http_bad_request None))) (\<lambda>rep.
            effect (Completed (pr_conn reqInfo) rep))))))"

text \<open>\<open>connected\<close>: the answer of the WHIP server's \<open>isConnected\<close>.\<close>

definition http_processRequest :: "bool \<Rightarrow> 'c PackedRequestInfo \<Rightarrow> ('c request_handler, unit) action" where
  "http_processRequest connected reqInfo =
     (let ask = abind (aget id) (\<lambda>h.
            if rh_whip h \<and> connected then effect (WhipGetAsset (reqInfo\<lparr>ServedFromWhip := True\<rparr>))
            else if rh_cf h then effect (CfGetAsset (reqInfo\<lparr>ServedFromCF := True\<rparr>))
            else complete_stock http_internal_server_error (pr_conn reqInfo)) in
      abind (aget id) (\<lambda>h.
      if rh_useCache h then
        (case rh_assetCache h of
           None \<Rightarrow> araise UndefinedBehaviour
         | Some l \<Rightarrow>
             abind (alift (fetch l (AssetId reqInfo) True)) (\<lambda>(l', asset).
             abind (amodify (\<lambda>h. h\<lparr>rh_assetCache := Some l'\<rparr>)) (\<lambda>_.
             case asset of
               Some a \<Rightarrow> asset_response_callback (reqInfo\<lparr>ServedFromCache := True\<rparr>) (Some a)
             | None \<Rightarrow> ask)))
      else ask))"

definition MAX_QUEUED_REQUESTS :: nat where "MAX_QUEUED_REQUESTS = 50"

definition handle_asset_request :: "bool \<Rightarrow> 'c \<Rightarrow> request \<Rightarrow> reply \<Rightarrow> string list \<Rightarrow> ('c request_handler, unit) action" where
  "handle_asset_request connected conn req rep urlParts =
     (if length urlParts < 5 then complete_stock http_bad_request conn
      else
        let queryString = decode_query_string (rq_uri req) in
        if queryString ''texture_id'' = None \<and> queryString ''mesh_id'' = None then complete_stock http_bad_request conn
        else
          let assetId = (case queryString ''texture_id'' of Some a \<Rightarrow> a
                         | None \<Rightarrow> (case queryString ''mesh_id'' of Some a \<Rightarrow> a | None \<Rightarrow> []));
              assetId = filter (\<lambda>c. c \<noteq> CHR ''-'') assetId;
              cap = urlParts ! 3
          in if \<not> IsValidUUID assetId then complete_stock http_bad_request conn
             else abind (aget id) (\<lambda>h.
               if cap \<notin> rh_validCapIds h then complete_stock http_not_found conn
               else
                 let reqInfo = \<lparr>AssetId = assetId, pr_conn = conn, pr_reply = rep\<lparr>rp_token := cap\<rparr>, pr_query = queryString,
                       pr_request = req, ServedFromCache = False, ServedFromWhip = False, ServedFromCF = False\<rparr>
                 in case rh_queuedRequests h cap of
                      None \<Rightarrow> http_processRequest connected reqInfo
                    | Some queue \<Rightarrow>
                        if length (queue @ [reqInfo]) > MAX_QUEUED_REQUESTS
                        then abind (amodify (\<lambda>h. h\<lparr>rh_queuedRequests := (rh_queuedRequests h)(cap \<mapsto> tl (queue @ [reqInfo]))\<rparr>)) (\<lambda>_.
                             complete_stock http_service_unavailable (pr_conn (hd (queue @ [reqInfo]))))
                        else amodify (\<lambda>h. h\<lparr>rh_queuedRequests := (rh_queuedRequests h)(cap \<mapsto> queue @ [reqInfo])\<rparr>)))"

text \<open>The guard that the requests on capabilities share.\<close>

definition with_token :: "nat \<Rightarrow> 'c \<Rightarrow> string list \<Rightarrow> ('c request_handler, unit) action \<Rightarrow> ('c request_handler, unit) action" where
  "with_token parts conn urlParts m =
     (if length urlParts < parts then complete_stock http_bad_request conn
      else abind (aget rh_capsToken) (\<lambda>token.
           if urlParts ! 4 \<noteq> token then complete_stock http_bad_request conn else m))"

definition handle_add_cap :: "int \<Rightarrow> 'c \<Rightarrow> string list \<Rightarrow> ('c request_handler, unit) action" where
  "handle_add_cap now conn urlParts =
     with_token 6 conn urlParts (
       let cap = urlParts ! 5 in
       abind (amodify (\<lambda>h. h\<lparr>rh_validCapIds := insert cap (rh_validCapIds h)\<rparr>)) (\<lambda>_.
       abind (if length urlParts = 7
              then abind (alift (lexical_cast_int (urlParts ! 6))) (\<lambda>bandwidth.
                   amodify (\<lambda>h. h\<lparr>rh_capsBuckets := (rh_capsBuckets h)(cap \<mapsto> TokenBucket_new now bandwidth)\<rparr>))
              else areturn ()) (\<lambda>_.
       complete_stock http_ok conn)))"

definition handle_rem_cap :: "'c \<Rightarrow> string list \<Rightarrow> ('c request_handler, unit) action" where
  "handle_rem_cap conn urlParts =
     with_token 6 conn urlParts (
       let cap = urlParts ! 5 in
       abind (amodify (\<lambda>h. h\<lparr>rh_validCapIds := rh_validCapIds h - {cap},
                              rh_queuedRequests := (rh_queuedRequests h)(cap := None),
                              rh_capsBuckets := (rh_capsBuckets h)(cap := None)\<rparr>)) (\<lambda>_.
       complete_stock http_ok conn))"

definition handle_pause_cap :: "'c \<Rightarrow> string list \<Rightarrow> ('c request_handler, unit) action" where
  "handle_pause_cap conn urlParts =
     with_token 6 conn urlParts (
       let cap = urlParts ! 5 in
       abind (amodify (\<lambda>h. if rh_queuedRequests h cap = None
                            then h\<lparr>rh_queuedRequests := (rh_queuedRequests h)(cap \<mapsto> [])\<rparr> else h)) (\<lambda>_.
       complete_stock http_ok conn))"

fun process_queue :: "bool \<Rightarrow> 'c PackedRequestInfo list \<Rightarrow> ('c request_handler, unit) action" where
  "process_queue connected [] = areturn ()"
| "process_queue connected (r # rs) = abind (http_processRequest connected r) (\<lambda>_. process_queue connected rs)"

definition handle_resume_cap :: "bool \<Rightarrow> 'c \<Rightarrow> string list \<Rightarrow> ('c request_handler, unit) action" where
  "handle_resume_cap connected conn urlParts =
     with_token 6 conn urlParts (
       let cap = urlParts ! 5 in
       abind (aget (\<lambda>h. rh_queuedRequests h cap)) (\<lambda>q.
       abind (case q of
                None \<Rightarrow> areturn ()
              | Some queue \<Rightarrow> abind (process_queue connected queue) (\<lambda>_.
                  amodify (\<lambda>h. h\<lparr>rh_queuedRequests := (rh_queuedRequests h)(cap := None)\<rparr>))) (\<lambda>_.
       complete_stock http_ok conn)))"

definition VIEWER_BW_MAX :: int where "VIEWER_BW_MAX = 319000"
definition REPLACEMENT_BW :: int where "REPLACEMENT_BW = 625000"

definition handle_limit_cap :: "int \<Rightarrow> 'c \<Rightarrow> string list \<Rightarrow> ('c request_handler, unit) action" where
  "handle_limit_cap now conn urlParts =
     with_token 7 conn urlParts (
       let cap = urlParts ! 5 in
       case lexical_cast_int (urlParts ! 6) of
         Inl e \<Rightarrow> complete_stock http_bad_request conn
       | Inr bwLimit \<Rightarrow>
           let bwLimit = (if bwLimit \<ge> VIEWER_BW_MAX then max REPLACEMENT_BW bwLimit else bwLimit) in
           abind (aget rh_validCapIds) (\<lambda>valid.
           if cap \<notin> valid then complete_stock http_bad_request conn
           else abind (amodify (\<lambda>h. h\<lparr>rh_capsBuckets := (rh_capsBuckets h)(cap \<mapsto> TokenBucket_new now bwLimit)\<rparr>)) (\<lambda>_.
                complete_stock http_ok conn)))"

definition http_handle_request :: "int \<Rightarrow> bool \<Rightarrow> 'c \<Rightarrow> request \<Rightarrow> reply \<Rightarrow> ('c request_handler, unit) action" where
  "http_handle_request now connected conn req rep =
     (let reqParts = split_on (CHR ''/'') (rq_uri req) in
      if length reqParts < 5 then complete_stock http_bad_request conn
      else if reqParts ! 1 \<noteq> ''CAPS'' \<or> reqParts ! 2 \<noteq> ''HTT'' then complete_stock http_bad_request conn
      else if reqParts ! 3 = ''ADDCAP'' then handle_add_cap now conn reqParts
      else if reqParts ! 3 = ''REMCAP'' then handle_rem_cap conn reqParts
      else if reqParts ! 3 = ''PAUSE'' then handle_pause_cap conn reqParts
      else if reqParts ! 3 = ''RESUME'' then handle_resume_cap connected conn reqParts
      else if reqParts ! 3 = ''LIMIT'' then handle_limit_cap now conn reqParts
      else handle_asset_request connected conn req rep reqParts)"

section \<open>How much a bucket grants\<close>

text \<open>Calls of \<open>removeTokens\<close> with the two times the clock gives, and what they grant in all.\<close>

fun bucket_run :: "(int \<times> int \<times> u64) list \<Rightarrow> TokenBucket \<Rightarrow> nat \<times> TokenBucket" where
  "bucket_run [] b = (0, b)"
| "bucket_run ((now, now', amount) # cs) b =
     (case removeTokens now now' amount b of
        (ok, b') \<Rightarrow> case bucket_run cs b' of (g, b'') \<Rightarrow> ((if ok then unat amount else 0) + g, b''))"

fun steady :: "int \<Rightarrow> (int \<times> int \<times> u64) list \<Rightarrow> bool" where
  "steady t [] \<longleftrightarrow> True"
| "steady t ((now, now', amount) # cs) \<longleftrightarrow> t \<le> now \<and> now \<le> now' \<and> steady now' cs"

definition bucket_ok :: "int \<Rightarrow> int \<Rightarrow> TokenBucket \<Rightarrow> bool" where
  "bucket_ok bw per b \<longleftrightarrow> int (unat (tb_maxBurst b)) = bw \<and> tb_tokens b \<le> tb_maxBurst b \<and> tb_tokensPerMS b = per \<and> 1 \<le> per"

lemma unat_plus_le: "unat (x + y) \<le> unat x + unat (y :: 'a :: len word)"
  by (metis mod_less_eq_dividend unat_word_ariths(1))

lemma unat_word_of_int_le: "0 \<le> i \<Longrightarrow> int (unat (word_of_int i :: u64)) \<le> i"
  by (simp add: unsigned_of_int take_bit_eq_mod zmod_le_nonneg_dividend)

lemma unat_word_of_int: "0 \<le> i \<Longrightarrow> i < 2 ^ 64 \<Longrightarrow> int (unat (word_of_int i :: u64)) = i"
  by (simp add: unsigned_of_int take_bit_eq_mod)

lemma drip_ok:
  assumes "bucket_ok bw per b" and "t \<le> tb_lastDrip b" and "now \<le> now'"
  defines "b' \<equiv> snd (drip now now' b)"
  shows "bucket_ok bw per b' \<and> tb_lastDrip b \<le> max (tb_lastDrip b) now \<and> tb_lastDrip b \<le> tb_lastDrip b'
    \<and> tb_lastDrip b' \<le> max (tb_lastDrip b) now'
    \<and> int (unat (tb_tokens b')) - per * ((tb_lastDrip b' - t) div 1000000)
      \<le> int (unat (tb_tokens b)) - per * ((tb_lastDrip b - t) div 1000000)"
proof (cases "(now - tb_lastDrip b) div 1000000 \<le> 0")
  case True
  then show ?thesis using assms(1) by (simp add: b'_def drip_def)
next
  case False
  let ?d = "(now - tb_lastDrip b) div 1000000" and ?u = "(tb_lastDrip b - t) div 1000000"
  let ?add = "word_of_int (tb_tokensPerMS b * ?d) :: u64"
  have b': "b' = b\<lparr>tb_tokens := min (tb_tokens b + ?add) (tb_maxBurst b), tb_lastDrip := now'\<rparr>"
    using False by (simp add: b'_def drip_def Let_def)
  have per: "tb_tokensPerMS b = per" "1 \<le> per" using assms(1) by (simp_all add: bucket_ok_def)
  have "int (unat ?add) \<le> per * ?d" using unat_word_of_int_le [of "per * ?d"] per False by simp
  moreover have "unat (tb_tokens b') \<le> unat (tb_tokens b) + unat ?add"
    using unat_plus_le [of "tb_tokens b" ?add] by (simp add: b' min_def word_le_nat_alt)
  ultimately have tok: "int (unat (tb_tokens b')) \<le> int (unat (tb_tokens b)) + per * ?d" by linarith
  have "?d + ?u \<le> (now' - t) div 1000000" using assms(3) by linarith
  then have "per * (?d + ?u) \<le> per * ((now' - t) div 1000000)" using per by (intro mult_left_mono) simp_all
  then have "int (unat (tb_tokens b')) - per * ((tb_lastDrip b' - t) div 1000000) \<le> int (unat (tb_tokens b)) - per * ?u"
    using tok by (simp add: b' distrib_left)
  moreover have "bucket_ok bw per b'" using assms(1) by (simp add: bucket_ok_def b')
  moreover have "tb_lastDrip b \<le> now" using False by linarith
  ultimately show ?thesis using assms(3) by (simp add: b')
qed

lemma removeTokens_ok:
  assumes "bucket_ok bw per b" and "t \<le> tb_lastDrip b" and "now \<le> now'" and "removeTokens now now' amount b = (ok, b')"
  shows "bucket_ok bw per b' \<and> tb_lastDrip b \<le> tb_lastDrip b' \<and> tb_lastDrip b' \<le> max (tb_lastDrip b) now'
    \<and> int (if ok then unat amount else 0) + int (unat (tb_tokens b')) - per * ((tb_lastDrip b' - t) div 1000000)
      \<le> int (unat (tb_tokens b)) - per * ((tb_lastDrip b - t) div 1000000)"
proof -
  let ?d = "snd (drip now now' b)"
  note d = drip_ok [OF assms(1-3)]
  show ?thesis
  proof (cases "amount \<le> tb_tokens ?d")
    case True
    then have b': "ok" "b' = ?d\<lparr>tb_tokens := tb_tokens ?d - amount\<rparr>" using assms(4) by (simp_all add: removeTokens_def Let_def)
    have "unat (tb_tokens ?d - amount) = unat (tb_tokens ?d) - unat amount" using True by (rule unat_sub)
    moreover have "unat amount \<le> unat (tb_tokens ?d)" using True by (simp add: word_le_nat_alt)
    ultimately have "int (unat amount) + int (unat (tb_tokens ?d - amount)) = int (unat (tb_tokens ?d))" by simp
    moreover have "tb_tokens ?d - amount \<le> tb_tokens ?d" using True by (simp add: word_le_nat_alt unat_sub)
    then have "bucket_ok bw per b'" using d by (auto simp: bucket_ok_def b')
    ultimately show ?thesis using d b' by simp
  next
    case False
    then show ?thesis using d assms(4) by (simp add: removeTokens_def Let_def)
  qed
qed

lemma bucket_run_ok:
  assumes "bucket_ok bw per b" and "t \<le> tb_lastDrip b" and "steady (tb_lastDrip b) cs"
  shows "bucket_ok bw per (snd (bucket_run cs b)) \<and> tb_lastDrip b \<le> tb_lastDrip (snd (bucket_run cs b))
    \<and> int (fst (bucket_run cs b)) + int (unat (tb_tokens (snd (bucket_run cs b)))) - per * ((tb_lastDrip (snd (bucket_run cs b)) - t) div 1000000)
      \<le> int (unat (tb_tokens b)) - per * ((tb_lastDrip b - t) div 1000000)"
  using assms
proof (induction cs arbitrary: b)
  case Nil
  then show ?case by simp
next
  case (Cons c cs)
  obtain now now' amount where c: "c = (now, now', amount)" by (cases c)
  obtain ok b' where r: "removeTokens now now' amount b = (ok, b')" by fastforce
  have le: "tb_lastDrip b \<le> now" "now \<le> now'" "steady now' cs" using Cons.prems(3) by (simp_all add: c)
  note s = removeTokens_ok [OF Cons.prems(1,2) le(2) r]
  have "steady (tb_lastDrip b') cs" using s le by (cases cs) auto
  then have "bucket_ok bw per (snd (bucket_run cs b')) \<and> tb_lastDrip b' \<le> tb_lastDrip (snd (bucket_run cs b'))
    \<and> int (fst (bucket_run cs b')) + int (unat (tb_tokens (snd (bucket_run cs b')))) - per * ((tb_lastDrip (snd (bucket_run cs b')) - t) div 1000000)
      \<le> int (unat (tb_tokens b')) - per * ((tb_lastDrip b' - t) div 1000000)"
    using s Cons.prems(2) by (intro Cons.IH) auto
  then show ?case using s by (auto simp: c r split: prod.split)
qed

lemma bucket_ok_new:
  assumes "0 \<le> bw" and "bw < 2 ^ 31"
  shows "bucket_ok bw (max 1 (bw div 1000)) (TokenBucket_new t bw)"
  using assms by (simp add: bucket_ok_def TokenBucket_new_def unsigned_of_int take_bit_eq_mod max_def)

text \<open>Who has waited long enough gets any amount up to the burst.\<close>

lemma removeTokens_full:
  assumes "bucket_ok bw per b" and "per < 2 ^ 22" and "int (unat amount) \<le> bw"
    and "tb_lastDrip b + 1000000 * bw \<le> now" and "now \<le> tb_lastDrip b + 1000000 * 2 ^ 41" and "bw < 2 ^ 31"
  shows "fst (removeTokens now now' amount b)"
proof -
  let ?d = "(now - tb_lastDrip b) div 1000000"
  have bw: "int (unat (tb_maxBurst b)) = bw" "tb_tokens b \<le> tb_maxBurst b" "tb_tokensPerMS b = per" "1 \<le> per"
    using assms(1) by (simp_all add: bucket_ok_def)
  show ?thesis
  proof (cases "?d \<le> 0")
    case True
    then have "bw \<le> 0" using assms(4) by linarith
    then have "unat amount = 0" using assms(3) by linarith
    then have "amount = 0" by (simp add: unat_eq_zero)
    then show ?thesis by (simp add: removeTokens_def Let_def)
  next
    case False
    have d: "bw \<le> ?d" "?d \<le> 2 ^ 41" using assms(4,5) by linarith+
    have "per * ?d \<le> 2 ^ 22 * 2 ^ 41" using assms(2) bw(4) d False by (intro mult_mono) simp_all
    then have le: "per * ?d \<le> 2 ^ 63" by simp
    have "1 * ?d \<le> per * ?d" using bw(4) False by (intro mult_right_mono) simp_all
    then have ge: "bw \<le> per * ?d" using d by linarith
    have u: "int (unat (word_of_int (per * ?d) :: u64)) = per * ?d"
      by (rule unat_word_of_int [OF order_trans [OF _ ge] le_less_trans [OF le]]) (simp_all flip: bw(1))
    have sum: "x + y < 2 ^ LENGTH(64)" if "int x < 2 ^ 31" "int y = z" "z \<le> 2 ^ 63" for x y :: nat and z :: int
      using that by simp
    have "unat (tb_tokens b) \<le> unat (tb_maxBurst b)" using bw(2) by (simp add: word_le_nat_alt)
    then have tok: "int (unat (tb_tokens b)) < 2 ^ 31" using bw(1) assms(6) by linarith
    have "unat (tb_tokens b + word_of_int (per * ?d)) = unat (tb_tokens b) + unat (word_of_int (per * ?d) :: u64)"
      by (rule unat_add_lem [THEN iffD1], rule sum [OF tok u le])
    moreover have "unat (tb_maxBurst b) \<le> unat (tb_tokens b) + unat (word_of_int (per * ?d) :: u64)" using u ge bw(1) by linarith
    ultimately have "tb_maxBurst b \<le> tb_tokens b + word_of_int (per * ?d)" by (simp only: word_le_nat_alt)
    moreover have "unat amount \<le> unat (tb_maxBurst b)" using assms(3) bw(1) by linarith
    then have "amount \<le> tb_maxBurst b" by (simp only: word_le_nat_alt)
    ultimately show ?thesis using False bw(3) by (simp add: removeTokens_def drip_def Let_def min_def)
  qed
qed

text \<open>
  C39: A token bucket that limits to \<open>bw\<close> bytes a second never grants more than \<open>bw\<close> bytes and, for
  every millisecond until it was last filled, a thousandth of \<open>bw\<close> (at least one byte) - however the
  calls are spread; and after \<open>bw\<close> milliseconds without one it grants any amount up to \<open>bw\<close>.
\<close>

theorem token_bucket_rate:
  assumes "0 \<le> bw" and "bw < 2 ^ 31" and "steady t cs"
  shows "int (fst (bucket_run cs (TokenBucket_new t bw)))
      \<le> bw + max 1 (bw div 1000) * ((tb_lastDrip (snd (bucket_run cs (TokenBucket_new t bw))) - t) div 1000000)
    \<and> (int (unat amount) \<le> bw \<longrightarrow> tb_lastDrip (snd (bucket_run cs (TokenBucket_new t bw))) + 1000000 * bw \<le> now \<longrightarrow>
       now \<le> tb_lastDrip (snd (bucket_run cs (TokenBucket_new t bw))) + 1000000 * 2 ^ 41 \<longrightarrow>
       fst (removeTokens now now' amount (snd (bucket_run cs (TokenBucket_new t bw)))))"
proof -
  let ?b = "TokenBucket_new t bw" and ?per = "max 1 (bw div 1000)"
  have new: "tb_lastDrip ?b = t" "int (unat (tb_tokens ?b)) = bw"
    using assms(1,2) by (simp_all add: TokenBucket_new_def unsigned_of_int take_bit_eq_mod)
  have run: "bucket_ok bw ?per (snd (bucket_run cs ?b)) \<and> tb_lastDrip ?b \<le> tb_lastDrip (snd (bucket_run cs ?b))
    \<and> int (fst (bucket_run cs ?b)) + int (unat (tb_tokens (snd (bucket_run cs ?b)))) - ?per * ((tb_lastDrip (snd (bucket_run cs ?b)) - t) div 1000000)
      \<le> int (unat (tb_tokens ?b)) - ?per * ((tb_lastDrip ?b - t) div 1000000)"
    by (rule bucket_run_ok [OF bucket_ok_new [OF assms(1,2)]]) (simp_all add: new(1) assms(3))
  have less: "g \<le> bw + p" if "g + u - p \<le> v - z" "0 \<le> u" "v = bw" "0 \<le> z" for g u p v z :: int
    using that by linarith
  have "?per < 2 ^ 22" using assms(2) by (auto simp: max_def)
  then have "int (unat amount) \<le> bw \<longrightarrow> tb_lastDrip (snd (bucket_run cs ?b)) + 1000000 * bw \<le> now \<longrightarrow>
      now \<le> tb_lastDrip (snd (bucket_run cs ?b)) + 1000000 * 2 ^ 41 \<longrightarrow> fst (removeTokens now now' amount (snd (bucket_run cs ?b)))"
    using assms(2) by (intro impI removeTokens_full [OF conjunct1 [OF run]]) simp_all
  moreover have "int (fst (bucket_run cs ?b)) \<le> bw + ?per * ((tb_lastDrip (snd (bucket_run cs ?b)) - t) div 1000000)"
    by (rule less [OF conjunct2 [OF conjunct2 [OF run]] _ new(2)]) (simp_all add: new(1))
  ultimately show ?thesis by blast
qed

theorem token_bucket_rate_witness:
  "int (fst (bucket_run [(5000000, 5000000, 2000), (7000000, 7000001, 3)] (TokenBucket_new 0 2000))) \<le> 2014
    \<and> fst (removeTokens 2007000001 2007000001 2000
        (snd (bucket_run [(5000000, 5000000, 2000), (7000000, 7000001, 3)] (TokenBucket_new 0 2000))))"
  using token_bucket_rate [of 2000 0 "[(5000000, 5000000, 2000), (7000000, 7000001, 3)]" 2000 2007000001 2007000001]
  by (simp add: removeTokens_def drip_def TokenBucket_new_def Let_def)

section \<open>Assets only for capabilities\<close>

text \<open>A capability that one of the requests added with the right token.\<close>

definition granted :: "string \<Rightarrow> string list \<Rightarrow> string \<Rightarrow> bool" where
  "granted token uris cap \<longleftrightarrow> list_ex (\<lambda>u. let ps = split_on (CHR ''/'') u in
     6 \<le> length ps \<and> ps ! 3 = ''ADDCAP'' \<and> ps ! 4 = token \<and> ps ! 5 = cap) uris"

text \<open>The capability in the address of the request an asset is asked for.\<close>

definition cap_of :: "'c PackedRequestInfo \<Rightarrow> string" where
  "cap_of r = split_on (CHR ''/'') (rq_uri (pr_request r)) ! 3"

definition asked_ok :: "(string \<Rightarrow> bool) \<Rightarrow> 'c PackedRequestInfo \<Rightarrow> bool" where
  "asked_ok A r \<longleftrightarrow> A (cap_of r) \<and> rp_token (pr_reply r) = cap_of r"

fun effect_ok :: "(string \<Rightarrow> bool) \<Rightarrow> 'c http_effect \<Rightarrow> bool" where
  "effect_ok A (Completed conn rep) \<longleftrightarrow> (\<exists>st x. rep = stock_reply st x) \<or> A (rp_token rep)"
| "effect_ok A (WhipGetAsset r) \<longleftrightarrow> asked_ok A r"
| "effect_ok A (CfGetAsset r) \<longleftrightarrow> asked_ok A r"

definition caps_inv :: "string \<Rightarrow> (string \<Rightarrow> bool) \<Rightarrow> 'c request_handler \<Rightarrow> bool" where
  "caps_inv token A h \<longleftrightarrow> rh_capsToken h = token \<and> (\<forall>cap \<in> rh_validCapIds h. A cap)
     \<and> (\<forall>cap q. rh_queuedRequests h cap = Some q \<longrightarrow> list_all (asked_ok A) q)
     \<and> list_all (effect_ok A) (rh_effects h)"

definition caps_kept :: "string \<Rightarrow> (string \<Rightarrow> bool) \<Rightarrow> 'c request_handler \<Rightarrow> 'c request_handler \<Rightarrow> bool" where
  "caps_kept token A h h' \<longleftrightarrow> (caps_inv token A h \<longrightarrow> caps_inv token A h')"

lemma caps_kept_order [intro, simp]: "reflp (caps_kept token A)" "transp (caps_kept token A)"
  by (auto simp: caps_kept_def reflp_def transp_def)

lemma caps_keptD: "changes (caps_kept token A) m \<Longrightarrow> caps_inv token A h \<Longrightarrow> caps_inv token A (snd (m h))"
  by (simp add: changes_def caps_kept_def)

lemma caps_keptI: "(\<And>h. caps_inv token A h \<Longrightarrow> caps_inv token A (snd (m h))) \<Longrightarrow> changes (caps_kept token A) m"
  by (simp add: changes_def caps_kept_def)

lemma effect_kept: "effect_ok A e \<Longrightarrow> changes (caps_kept token A) (effect e)"
  by (rule caps_keptI) (simp add: effect_def caps_inv_def)

lemma amodify_kept: "(\<And>h. caps_inv token A h \<Longrightarrow> caps_inv token A (f h)) \<Longrightarrow> changes (caps_kept token A) (amodify f)"
  by (rule caps_keptI) simp

lemma complete_stock_kept: "changes (caps_kept token A) (complete_stock st conn)"
  unfolding complete_stock_def by (rule effect_kept) auto

lemma caught_kept:
  assumes "\<And>y. x = Inr y \<Longrightarrow> changes R (g y)" and "\<And>e. changes R (g (f e))" and "reflp R"
  shows "changes R (abind (acatch (alift x) (\<lambda>e. areturn (f e))) g)"
  using assms by (cases x) (auto simp: changes_def abind_def acatch_def reflp_def)

lemma sendResponse_token: "http_sendResponse r a ct = Inr rep \<Longrightarrow> rp_token rep = rp_token (pr_reply r)"
  by (auto simp: http_sendResponse_def ebind_eq_Inr Let_def split: option.splits if_splits prod.splits)

lemma cache_asset_kept: "changes (caps_kept token A) (cache_asset r a)"
proof -
  have "changes (caps_kept token A) (amodify (\<lambda>h. h\<lparr>rh_assetCache := c\<rparr>))" for c
    by (rule amodify_kept) (simp add: caps_inv_def)
  then show ?thesis unfolding cache_asset_def
    by (auto split: option.split intro!: changes_abind changes_pure)
qed

lemma asset_response_callback_kept:
  assumes "asked_ok A r"
  shows "changes (caps_kept token A) (asset_response_callback r asset)"
proof (cases asset)
  case None
  have "asked_ok A (r\<lparr>ServedFromWhip := False, ServedFromCF := True\<rparr>)" using assms by (simp add: asked_ok_def cap_of_def)
  then show ?thesis unfolding asset_response_callback_def None
    by (auto intro!: changes_abind changes_pure changes_if effect_kept complete_stock_kept)
next
  case (Some a)
  have "A (rp_token rep)" if "http_sendResponse r a ct = Inr rep" for ct rep
    using sendResponse_token [OF that] assms by (simp add: asked_ok_def)
  then show ?thesis unfolding asset_response_callback_def Some option.case
    by (intro changes_abind changes_if changes_pure caps_kept_order caught_kept effect_kept complete_stock_kept cache_asset_kept)
      (auto split: exn.split)
qed

lemma http_processRequest_kept:
  assumes "asked_ok A r"
  shows "changes (caps_kept token A) (http_processRequest connected r)"
proof -
  have ok: "asked_ok A (r\<lparr>ServedFromWhip := True\<rparr>)" "asked_ok A (r\<lparr>ServedFromCF := True\<rparr>)" "asked_ok A (r\<lparr>ServedFromCache := True\<rparr>)"
    using assms by (simp_all add: asked_ok_def cap_of_def)
  have c: "changes (caps_kept token A) (amodify (\<lambda>h. h\<lparr>rh_assetCache := c\<rparr>))" for c
    by (rule amodify_kept) (simp add: caps_inv_def)
  show ?thesis unfolding http_processRequest_def Let_def
    by (auto split: option.split intro!: changes_abind changes_pure changes_if effect_kept complete_stock_kept
        asset_response_callback_kept c simp: ok)
qed

lemma process_queue_kept:
  "list_all (asked_ok A) q \<Longrightarrow> changes (caps_kept token A) (process_queue connected q)"
  by (induction q) (auto intro!: changes_abind changes_pure http_processRequest_kept)

lemma with_token_kept:
  assumes "n \<le> length ps \<Longrightarrow> ps ! 4 = token \<Longrightarrow> changes (caps_kept token A) m"
  shows "changes (caps_kept token A) (with_token n conn ps m)"
proof (rule caps_keptI)
  fix h :: "'a request_handler" assume h: "caps_inv token A h"
  then have t: "rh_capsToken h = token" by (simp add: caps_inv_def)
  show "caps_inv token A (snd (with_token n conn ps m h))"
    using caps_keptD [OF complete_stock_kept h] caps_keptD [OF assms h] by (simp add: with_token_def t)
qed

lemma caps_updates:
  assumes "caps_inv token A h"
  shows "A cap \<Longrightarrow> caps_inv token A (h\<lparr>rh_validCapIds := insert cap (rh_validCapIds h)\<rparr>)"
    and "caps_inv token A (h\<lparr>rh_capsBuckets := bs\<rparr>)"
    and "list_all (asked_ok A) q \<Longrightarrow> caps_inv token A (h\<lparr>rh_queuedRequests := (rh_queuedRequests h)(cap \<mapsto> q)\<rparr>)"
    and "caps_inv token A (h\<lparr>rh_queuedRequests := (rh_queuedRequests h)(cap := None)\<rparr>)"
    and "caps_inv token A (h\<lparr>rh_validCapIds := rh_validCapIds h - {cap},
           rh_queuedRequests := (rh_queuedRequests h)(cap := None), rh_capsBuckets := bs\<rparr>)"
  using assms by (auto simp: caps_inv_def)

lemma handle_add_cap_kept:
  assumes "6 \<le> length ps \<Longrightarrow> ps ! 4 = token \<Longrightarrow> A (ps ! 5)"
  shows "changes (caps_kept token A) (handle_add_cap now conn ps)"
  unfolding handle_add_cap_def Let_def
  by (intro with_token_kept changes_abind caps_kept_order changes_if changes_pure complete_stock_kept)
    (auto intro!: amodify_kept caps_updates assms)

lemma handle_cap_kept:
  "changes (caps_kept token A) (handle_rem_cap conn ps)"
  "changes (caps_kept token A) (handle_pause_cap conn ps)"
  unfolding handle_rem_cap_def handle_pause_cap_def Let_def
  by (intro with_token_kept changes_abind caps_kept_order complete_stock_kept; auto intro!: amodify_kept caps_updates)+

lemma handle_limit_cap_kept: "changes (caps_kept token A) (handle_limit_cap now conn ps)"
  unfolding handle_limit_cap_def Let_def
  by (rule with_token_kept)
    (auto split: sum.split intro!: changes_abind changes_if changes_pure complete_stock_kept amodify_kept caps_updates(2))

lemma handle_resume_cap_kept: "changes (caps_kept token A) (handle_resume_cap connected conn ps)"
  unfolding handle_resume_cap_def Let_def
proof (rule with_token_kept, rule caps_keptI)
  fix h :: "'a request_handler" assume h: "caps_inv token A h"
  have "changes (caps_kept token A) (abind (process_queue connected q) (\<lambda>_.
      amodify (\<lambda>h. h\<lparr>rh_queuedRequests := (rh_queuedRequests h)(ps ! 5 := None)\<rparr>)))" if "list_all (asked_ok A) q" for q
    by (intro changes_abind caps_kept_order process_queue_kept that) (auto intro!: amodify_kept caps_updates(4))
  moreover have "list_all (asked_ok A) q" if "rh_queuedRequests h (ps ! 5) = Some q" for q
    using that h by (simp add: caps_inv_def)
  ultimately have "changes (caps_kept token A) (abind (case rh_queuedRequests h (ps ! 5) of
        None \<Rightarrow> areturn ()
      | Some queue \<Rightarrow> abind (process_queue connected queue) (\<lambda>_.
          amodify (\<lambda>h. h\<lparr>rh_queuedRequests := (rh_queuedRequests h)(ps ! 5 := None)\<rparr>))) (\<lambda>_. complete_stock http_ok conn))"
    by (intro changes_abind caps_kept_order complete_stock_kept) (auto split: option.split)
  from caps_keptD [OF this h] show "caps_inv token A (snd (abind (aget (\<lambda>h. rh_queuedRequests h (ps ! 5))) (\<lambda>q.
      abind (case q of None \<Rightarrow> areturn ()
        | Some queue \<Rightarrow> abind (process_queue connected queue) (\<lambda>_.
            amodify (\<lambda>h. h\<lparr>rh_queuedRequests := (rh_queuedRequests h)(ps ! 5 := None)\<rparr>)))
        (\<lambda>_. complete_stock http_ok conn)) h))" by simp
qed

lemma queue_request_kept:
  assumes "asked_ok A r" and "list_all (asked_ok A) q"
  shows "changes (caps_kept token A) (if length (q @ [r]) > MAX_QUEUED_REQUESTS
     then abind (amodify (\<lambda>h. h\<lparr>rh_queuedRequests := (rh_queuedRequests h)(cap \<mapsto> tl (q @ [r]))\<rparr>)) (\<lambda>_.
          complete_stock http_service_unavailable (pr_conn (hd (q @ [r]))))
     else amodify (\<lambda>h. h\<lparr>rh_queuedRequests := (rh_queuedRequests h)(cap \<mapsto> q @ [r])\<rparr>))"
proof -
  have all: "list_all (asked_ok A) (q @ [r])" "list_all (asked_ok A) (tl (q @ [r]))"
    using assms by (cases q; simp)+
  show ?thesis
    by (intro changes_if changes_abind caps_kept_order complete_stock_kept) (auto intro!: amodify_kept caps_updates(3) all)
qed

lemma handle_asset_request_kept:
  assumes "ps = split_on (CHR ''/'') (rq_uri req)"
  shows "changes (caps_kept token A) (handle_asset_request connected conn req rep ps)"
proof (rule caps_keptI)
  fix h :: "'a request_handler" assume h: "caps_inv token A h"
  let ?r = "\<lambda>i. \<lparr>AssetId = i, pr_conn = conn, pr_reply = rep\<lparr>rp_token := ps ! 3\<rparr>, pr_query = decode_query_string (rq_uri req),
     pr_request = req, ServedFromCache = False, ServedFromWhip = False, ServedFromCF = False\<rparr>"
  have ok: "asked_ok A (?r i)" if "ps ! 3 \<in> rh_validCapIds h" for i
    using that h assms by (simp add: asked_ok_def cap_of_def caps_inv_def)
  have q: "list_all (asked_ok A) q" if "rh_queuedRequests h cap = Some q" for cap q
    using that h by (simp add: caps_inv_def)
  show "caps_inv token A (snd (handle_asset_request connected conn req rep ps h))"
    using caps_keptD [OF complete_stock_kept h] caps_keptD [OF http_processRequest_kept [OF ok] h]
      caps_keptD [OF queue_request_kept [OF ok q] h]
    unfolding handle_asset_request_def Let_def
    by (auto split: option.split)
qed

lemma http_handle_request_kept:
  assumes "\<And>cap. granted token [rq_uri req] cap \<Longrightarrow> A cap"
  shows "changes (caps_kept token A) (http_handle_request now connected conn req rep)"
proof -
  let ?ps = "split_on (CHR ''/'') (rq_uri req)"
  have "A (?ps ! 5)" if "?ps ! 3 = ''ADDCAP''" "6 \<le> length ?ps" "?ps ! 4 = token"
    using assms [of "?ps ! 5"] that by (simp add: granted_def Let_def)
  then show ?thesis unfolding http_handle_request_def Let_def
    by (simp add: complete_stock_kept handle_add_cap_kept handle_cap_kept handle_limit_cap_kept handle_resume_cap_kept
        handle_asset_request_kept)
qed

lemma caps_inv_mono:
  assumes "caps_inv token A h" and "\<And>cap. A cap \<Longrightarrow> B cap"
  shows "caps_inv token B h"
proof -
  have "asked_ok B r" if "asked_ok A r" for r :: "'a PackedRequestInfo" using that assms(2) by (simp add: asked_ok_def)
  moreover from this have "effect_ok B e" if "effect_ok A e" for e :: "'a http_effect" using that assms(2) by (cases e) auto
  ultimately show ?thesis using assms by (auto simp: caps_inv_def list_all_iff)
qed

text \<open>
  What a handler goes through: its cache is set up, requests come in from connections, and the asset
  servers answer what they were asked, at any time and with anything.
\<close>

inductive http_session :: "bool \<Rightarrow> bool \<Rightarrow> string \<Rightarrow> string list \<Rightarrow> 'c request_handler \<Rightarrow> bool"
  for whip :: bool and cf :: bool and token :: string where
  started: "http_session whip cf token [] (request_handler_new whip cf token)"
| cache_set_up: "http_session whip cf token uris h \<Longrightarrow> http_session whip cf token uris (snd (initAssetCache n h))"
| requested: "http_session whip cf token uris h \<Longrightarrow>
    http_session whip cf token (uris @ [rq_uri req]) (snd (http_handle_request now connected conn req rep h))"
| answered: "http_session whip cf token uris h \<Longrightarrow> WhipGetAsset r \<in> set (rh_effects h) \<or> CfGetAsset r \<in> set (rh_effects h) \<Longrightarrow>
    http_session whip cf token uris (snd (asset_response_callback r asset h))"

lemma http_session_caps: "http_session whip cf token uris h \<Longrightarrow> caps_inv token (granted token uris) h"
proof (induction rule: http_session.induct)
  case started
  show ?case by (simp add: caps_inv_def request_handler_new_def)
next
  case (cache_set_up uris h n)
  then show ?case by (simp add: caps_inv_def initAssetCache_def)
next
  case (requested uris h req now connected conn rep)
  have "caps_inv token (granted token (uris @ [rq_uri req])) h"
    by (rule caps_inv_mono [OF requested.IH]) (simp add: granted_def)
  moreover have "granted token (uris @ [rq_uri req]) cap" if "granted token [rq_uri req] cap" for cap
    using that by (simp add: granted_def)
  ultimately show ?case by (intro caps_keptD [OF http_handle_request_kept])
next
  case (answered uris h r asset)
  then have "asked_ok (granted token uris) r" by (auto simp: caps_inv_def list_all_iff)
  from caps_keptD [OF asset_response_callback_kept [OF this] answered.IH] show ?case .
qed

text \<open>
  C37: Whatever requests come in and whatever the asset servers answer, the handler asks for an asset
  only for a request whose capability some request before it added with the right token, and a
  connection gets either a fixed reply, which carries no asset, or a reply for such a capability.  A
  capability may have been removed again while its requests were under way.
\<close>

theorem asset_needs_cap:
  assumes "http_session whip cf token uris h" and "e \<in> set (rh_effects h)"
  shows "case e of
      Completed conn rep \<Rightarrow> (\<exists>st x. rep = stock_reply st x) \<or> granted token uris (rp_token rep)
    | WhipGetAsset r \<Rightarrow> granted token uris (cap_of r) \<and> rp_token (pr_reply r) = cap_of r
    | CfGetAsset r \<Rightarrow> granted token uris (cap_of r) \<and> rp_token (pr_reply r) = cap_of r"
proof -
  have "effect_ok (granted token uris) e" using http_session_caps [OF assms(1)] assms(2) by (auto simp: caps_inv_def list_all_iff)
  then show ?thesis by (cases e) (simp_all add: asked_ok_def)
qed

definition sample_uri_add :: string where "sample_uri_add = ''/CAPS/HTT/ADDCAP/tok/c1''"
definition sample_uri_get :: string where "sample_uri_get = ''/CAPS/HTT/c1/?texture_id='' @ replicate 32 (CHR ''0'')"

definition sample_http_request :: "string \<Rightarrow> http_header list \<Rightarrow> request" where
  "sample_http_request u hs = \<lparr>rq_method = ''GET'', rq_uri = u, http_version_major = 1, http_version_minor = 1,
     rq_headers = hs, is_ready = True, is_bad = False\<rparr>"

lemma replicate_32: "replicate 32 c = [c, c, c, c, c, c, c, c, c, c, c, c, c, c, c, c,
    c, c, c, c, c, c, c, c, c, c, c, c, c, c, c, c]"
  by (simp add: numeral_eq_Suc)

lemma sample_uri_get_query: "decode_query_string sample_uri_get ''texture_id'' = Some (replicate 32 (CHR ''0''))"
  by (simp add: decode_query_string_def sample_uri_get_def add_param_def lower_char_def replicate_32)

lemma sample_uri_get_parts: "split_on (CHR ''/'') sample_uri_get = [[], ''CAPS'', ''HTT'', ''c1'', ''?texture_id='' @ replicate 32 (CHR ''0'')]"
  by (simp add: sample_uri_get_def replicate_32)

definition sample_handler :: "nat request_handler" where
  "sample_handler = snd (http_handle_request 0 True 7 (sample_http_request sample_uri_add []) (stock_reply http_ok None)
     (request_handler_new True False ''tok''))"

lemma sample_handler_run:
  "sample_handler = (request_handler_new True False ''tok'')\<lparr>rh_validCapIds := {''c1''}, rh_effects := [Completed 7 (stock_reply http_ok None)]\<rparr>"
  by (simp add: sample_handler_def http_handle_request_def handle_add_cap_def with_token_def complete_stock_def effect_def
      sample_http_request_def sample_uri_add_def request_handler_new_def Let_def)

theorem asset_needs_cap_witness:
  "\<exists>(h :: nat request_handler) r. http_session True False ''tok'' [sample_uri_add, sample_uri_get] h
     \<and> WhipGetAsset r \<in> set (rh_effects h) \<and> AssetId r = replicate 32 (CHR ''0'') \<and> cap_of r = ''c1''
     \<and> granted ''tok'' [sample_uri_add, sample_uri_get] ''c1''"
proof -
  let ?req = "sample_http_request sample_uri_get []"
  let ?h = "snd (http_handle_request 0 True 8 ?req (stock_reply http_ok None) sample_handler)"
  have "http_session True False ''tok'' [sample_uri_add] sample_handler"
    using requested [OF started, of True False "''tok''" "sample_http_request sample_uri_add []"]
    by (simp add: sample_http_request_def sample_handler_def)
  from requested [OF this, of ?req] have s: "http_session True False ''tok'' [sample_uri_add, sample_uri_get] ?h"
    by (simp add: sample_http_request_def)
  have u: "IsValidUUID (replicate 32 (CHR ''0''))" by (simp add: IsValidUUID_iff is_hex_def hexdigits_def)
  obtain r where e: "WhipGetAsset r \<in> set (rh_effects ?h)" "AssetId r = replicate 32 (CHR ''0'')" "pr_request r = ?req"
    using u unfolding sample_handler_run
    by (simp add: http_handle_request_def handle_asset_request_def sample_http_request_def sample_uri_get_query sample_uri_get_parts
        http_processRequest_def effect_def request_handler_new_def Let_def abind_def)
  have "cap_of r = ''c1''" by (simp add: cap_of_def e(3) sample_http_request_def sample_uri_get_parts)
  with asset_needs_cap [OF s e(1)] s e show ?thesis by auto
qed


section \<open>What a reply carries\<close>

definition binary_weight :: "IAsset \<Rightarrow> u64" where
  "binary_weight a = (case getBinaryDataSize a of Inr sz \<Rightarrow> sz + ucast TOTAL_OVERHEAD | Inl e \<Rightarrow> 0)"

definition measurable :: "IAsset \<Rightarrow> bool" where
  "measurable a \<longleftrightarrow> (case getBinaryDataSize a of Inr sz \<Rightarrow> True | Inl e \<Rightarrow> False)"

interpretation binary_size: size_calculator BinarySizeCalculator binary_weight measurable
  by unfold_locales (auto simp: BinarySizeCalculator_def binary_weight_def measurable_def split: sum.splits)

definition http_cache_ok :: "'c request_handler \<Rightarrow> bool" where
  "http_cache_ok h \<longleftrightarrow> (case rh_assetCache h of None \<Rightarrow> True | Some l \<Rightarrow> lru_inv binary_weight measurable l)"

lemma http_cache_ok_new:
  "http_cache_ok (request_handler_new whip cf token)" "http_cache_ok (snd (initAssetCache n h))"
  by (simp_all add: http_cache_ok_def request_handler_new_def initAssetCache_def lru_inv_new)

lemma cache_asset_run:
  assumes "http_cache_ok h" and "measurable a"
  shows "\<exists>c. cache_asset r a h = (Inr (), h\<lparr>rh_assetCache := c\<rparr>) \<and> http_cache_ok (h\<lparr>rh_assetCache := c\<rparr>)"
proof (cases "rh_assetCache h")
  case None
  then show ?thesis using assms(1) by (intro exI [of _ None]) (simp add: cache_asset_def http_cache_ok_def)
next
  case (Some l)
  then have l: "lru_inv binary_weight measurable l" using assms(1) by (simp add: http_cache_ok_def)
  obtain l' where "lru_insert BinarySizeCalculator l (AssetId r) a = Inr l'" "lru_inv binary_weight measurable l'"
    using binary_size.insert_sim [OF l assms(2)] by blast
  then show ?thesis using Some l
    by (intro exI [of _ "if ServedFromCache r then Some l else Some l'"]) (simp add: cache_asset_def http_cache_ok_def)
qed







lemma range_header_filter: "range_header hs r = range_header (filter (\<lambda>h. hd_name h = ''Range'') hs) r"
proof (induction hs arbitrary: r)
  case (Cons h hs)
  then show ?case by (cases "hd_name h = ''Range''") (simp_all add: ebind_def split: sum.split)
qed simp

lemma unat_ucast_u32: "unat (ucast x :: u64) = unat x" for x :: u32
  using unsigned_less [of x, where 'a = nat] by (simp add: unsigned_ucast_eq take_bit_nat_eq_self)








text \<open>A mesh with the name \<open>n\<close>, no description and the data \<open>123456789\<close>.\<close>

definition sample_mesh :: "byte list \<Rightarrow> bytes" where
  "sample_mesh sz = replicate 32 48 @ [49, 0, 0, 0, 0, 0, 0, 1, 110, 0] @ sz @ [49, 50, 51, 52, 53, 54, 55, 56, 57]"

definition sample_packed :: "http_header list \<Rightarrow> nat PackedRequestInfo" where
  "sample_packed hs = \<lparr>AssetId = replicate 32 (CHR ''0''), pr_conn = 7, pr_reply = reply_reset (stock_reply http_ok None), pr_query = (\<lambda>_. None),
     pr_request = sample_http_request [] hs, ServedFromCache = False, ServedFromWhip = True, ServedFromCF = False\<rparr>"

lemma sample_mesh_facts:
  "findDataLocationAndSize (sample_mesh [a, b, c, e]) = Inr (46, of_be32 [a, b, c, e])" "at (sample_mesh [a, b, c, e]) 32 = Inr 49"
  "length (sample_mesh [a, b, c, e]) = 55"
  by (simp_all add: findDataLocationAndSize_def NAME_FIELD_SZ_LOC_def sample_mesh_def at_def peek32_def nth_append Let_def del: of_be32.simps)


lemma data_location_bound:
  assumes "findDataLocationAndSize d = Inr (loc, sz)"
  shows "unat loc \<le> length d"
proof -
  obtain nm ds where "loc = NAME_FIELD_SZ_LOC + (ucast nm + 1) + (ucast (ds :: byte) + 1) + 4"
    "peek32 d (unat (NAME_FIELD_SZ_LOC + (ucast (nm :: byte) + 1) + (ucast ds + 1))) = Inr sz"
    using assms by (auto simp: findDataLocationAndSize_def ebind_eq_Inr Let_def)
  moreover from this have "unat (NAME_FIELD_SZ_LOC + (ucast nm + 1) + (ucast ds + 1)) + 4 \<le> length d"
    by (simp add: peek32_def split: if_splits)
  ultimately show ?thesis using unat_plus_le [of "NAME_FIELD_SZ_LOC + (ucast nm + 1) + (ucast ds + 1)" "4 :: u32"] by simp
qed

text \<open>
  C40: A texture or mesh of the WHIP server whose data size is so large that the sum of its location
  and size exceeds 32 bits passes the check of the size, because the sum wraps; the reply to a request
  without a range then reads past the end of the asset.
\<close>

theorem full_copy_overflow:
  assumes "http_cache_ok h" and "findDataLocationAndSize d = Inr (loc, sz)" and "2 ^ 32 \<le> unat loc + unat sz" and "length d < 2 ^ 32"
    and "at d 32 = Inr t" and "t = AT_TEXTURE \<or> t = AT_MESH"
    and "filter (\<lambda>h. hd_name h = ''Range'') (rq_headers (pr_request r)) = []"
  shows "fst (asset_response_callback r (Some (WhipAsset d)) h) = Inl UndefinedBehaviour"
proof -
  have loc: "unat loc \<le> length d" by (rule data_location_bound [OF assms(2)])
  have "unat sz < 2 ^ 32" using unsigned_less [of sz, where 'a = nat] by simp
  then have "unat (loc + sz) = unat loc + unat sz - 2 ^ 32" using loc assms(3,4) by (simp add: unat_word_ariths mod_if)
  then have "unat (loc + sz) \<le> length d" using loc \<open>unat sz < 2 ^ 32\<close> by linarith
  then have "\<not> (ucast (loc + sz) :: u64) > of_nat (length d)"
    using assms(4) by (simp add: word_less_nat_alt unat_ucast_u32 unat_of_nat)
  moreover have "read_string d (unat loc) (unat sz) = Inl UndefinedBehaviour" using assms(3,4) by (simp add: read_string_def)
  ultimately have copy: "copyAssetData (WhipAsset d) s = Inl UndefinedBehaviour" for s by (simp add: assms(2) append_bytes_def)
  have "range_header (rq_headers (pr_request r)) None = Inr None" by (subst range_header_filter) (simp add: assms(7))
  then have send: "http_sendResponse r (WhipAsset d) ct = Inl UndefinedBehaviour" for ct
    by (simp add: http_sendResponse_def copy Let_def del: copyAssetData.simps)
  have size: "getBinaryDataSize (WhipAsset d) = Inr (ucast sz)" using assms(2) by simp
  then obtain c where "cache_asset r (WhipAsset d) h = (Inr (), h\<lparr>rh_assetCache := c\<rparr>)"
    using cache_asset_run [OF assms(1), of "WhipAsset d" r] by (auto simp: measurable_def)
  then show ?thesis using assms(5,6) size send by (auto simp: asset_response_callback_def abind_def acatch_def)
qed

theorem full_copy_overflow_witness:
  "fst (asset_response_callback (sample_packed []) (Some (WhipAsset (sample_mesh [255, 255, 255, 255])))
     (request_handler_new True False ''tok'')) = Inl UndefinedBehaviour"
proof -
  let ?d = "sample_mesh [255, 255, 255, 255]"
  have d: "findDataLocationAndSize ?d = Inr (46, 4294967295)" "at ?d 32 = Inr 49" "length ?d < 2 ^ 32"
    by (simp_all add: sample_mesh_facts)
  show ?thesis
    by (rule full_copy_overflow [OF http_cache_ok_new(1) d(1) _ d(3,2)])
      (simp_all add: AT_MESH_def sample_packed_def sample_http_request_def)
qed

end
