(* ===== verification/Spec2Isabelle.thy ===== *)
theory Spec2Isabelle
  imports Prelude Uuid Sha1 Messages LruCache Storage Backend Cache Connection Sessions HttpParser HttpServer
begin

text \<open>
  A verification library for the WHIP asset server (\<open>src/whip-server\<close>) and for the requests of its
  HTTP front end (\<open>src/aperture\<close>).

  \<^bold>\<open>The program.\<close>  The server keeps immutable assets, byte strings that start with the 32 hex digits
  of their id.  A client connects over TCP, answers a SHA-1 challenge (\<open>CSUnauthenticated\<close>) and then
  sends requests (\<open>CSAuthenticated\<close>): get, put, test, purge and maintenance.  The connection passes
  them to a memory cache (\<open>AssetCache\<close>, over \<open>lru_cache.h\<close>), which passes what it cannot answer to an
  asynchronous backend (\<open>VFSBackend\<close>).  The backend has a set of the ids it knows
  (\<open>ExistenceIndex\<close>), a queue of requests (\<open>VFSQueueTypes\<close>) and one worker thread, which reads and
  appends data files and SQLite index files, a pair per directory and scope (\<open>VFSDatabase\<close>,
  \<open>DatabaseSet\<close>, \<open>DataFile\<close>, \<open>SQLiteIndexFile\<close>), and posts the callbacks back to the network
  thread.

  \<^bold>\<open>The theories.\<close>  A C++ class is a record, an operation a function of the same name.  An operation
  that can throw returns \<open>exn + 'a\<close>; one that also changes its object is an \<open>action\<close>, a function of
  the state to a result and the new state, so the state after an exception is part of the model.
  What C++ leaves undefined is the error \<open>UndefinedBehaviour\<close>, and a proof that an operation succeeds
  also proves that it is not reached.

  \<^item> \<open>Prelude\<close>: results, actions, bytes, decimal and hexadecimal printing.
  \<^item> \<open>Uuid\<close>: \<open>Validator.cpp\<close> and \<open>ooid/kashmir/uuid.h\<close>; what is accepted, and the round trip of the
    text form.
  \<^item> \<open>Sha1\<close>: \<open>SHA1.cpp\<close> on 32-bit words with its buffers; equal to the functions of FIPS 180-1.
  \<^item> \<open>Messages\<close>: the constructors and accessors of \<open>*Msg.cpp\<close> and \<open>Asset.cpp\<close>; round trips, and that
    the authentication accepts exactly the SHA-1 answer to its challenge.
  \<^item> \<open>LruCache\<close>: the template with a node identity for each iterator, so that a dangling one is an
    error; refines a recency list, stays within its limit.  The locale \<open>size_calculator\<close> is the
    contract of its size policy and is interpreted for both policies of the code.
  \<^item> \<open>Storage\<close>: files and index tables below the storage root.  The answers of each system call and
    SQL statement are an argument (\<open>Io\<close>), so the theorems cover every pattern of failures.  The
    locale \<open>asset_store\<close> is the contract of a store as a map from ids to assets; it is interpreted for
    the disk layer.
  \<^item> \<open>Backend\<close>: existence index, queue, worker, posted callbacks and the purge timer.  The states
    reached by calls, turns of the worker and posted handlers in any order are an inductive predicate
    with one invariant.
  \<^item> \<open>Cache\<close>: the asset cache over the backend; it never gives out anything but the asset the disk
    holds under the id, and answers every get of an id it reports as existing.
  \<^item> \<open>Connection\<close>: the connection of one client, a step per completed socket operation or storage call.
  \<^item> \<open>Sessions\<close>: what the connections promise against every peer.
  \<^item> \<open>HttpParser\<close>: the incremental parser of HTTP requests of the front end (\<open>src/aperture\<close>).
    It ends on every input, does not depend on how the input is cut into reads, and reads back what
    a printed request says; the printer belongs to the specification, the code has none.
  \<^item> \<open>HttpServer\<close>: the request handler of the front end with its capabilities, paused queues, rate
    limits, replies and asset cache (\<open>request_handler.cpp\<close>, \<open>reply.cpp\<close>, \<open>TokenBucket.cpp\<close>).  Assets
    are asked for and sent only for capabilities that were added with the token; the bytes of a range
    are exact; a bucket keeps its rate.  The cache is the template of \<open>LruCache\<close> with a third size
    policy, for which the locale is interpreted too.

  \<^bold>\<open>Loops.\<close>  Every loop of the code is a total function with its termination proof; there is no fuel.

  \<^bold>\<open>Reachability.\<close>  The promises of the backend speak of the states reached by gets and stores with
  valid ids, purges of single assets, listings of stored ids, shutdown, turns of the worker without
  faults and posted handlers, in any order and number; those of the cache and of a get from client to
  disk leave out purges and listings too.  Purges of the local assets are not among the steps because
  they do not keep the index exact (\<open>purge_race\<close>), status requests because the sum over the latency
  samples is only defined while it fits an \<open>int\<close>.

  \<^bold>\<open>Not modelled.\<close>
  \<^item> The services between servers: the mesh (\<open>IntraMeshService\<close>, \<open>MeshServer\<close>, \<open>AssetSearch\<close>,
    \<open>MeshStorageBackend\<close>), the replication (\<open>PushReplicationService\<close>, \<open>PullReplicationService\<close>,
    \<open>RemoteAssetService\<close>) and \<open>AssetServer\<close>, which opens the listening sockets and puts the parts
    together.  Of the replication the backend keeps the assets handed to it (\<open>be_push\<close>) and the
    journal it asks; a client meets the cache over the backend, without a mesh in between.
  \<^item> The SQLite sources (\<open>src/whip-server/sqlite\<close>) are vendored: their answers are the argument
    \<open>Io\<close>.  Boost.Asio sockets, threads and timers are the environment that completes an operation.
  \<^item> Of the front end, the sockets (\<open>server.cpp\<close>, \<open>connection.cpp\<close>) and the clients of the asset
    servers (\<open>AssetServer.cpp\<close>, \<open>CloudFilesConnector.cpp\<close>): what the handler asks of them is a list of
    effects, and their answers are arbitrary.
  \<^item> Object lifetimes.  Handlers hold plain pointers to their objects; the model has no addresses, so
    nothing here says that a client state or a service outlives the handlers it posted.
  \<^item> File descriptors.  Reads and writes of a data file are modelled by their effect on its bytes;
    opening can fail, closing has no effect.
  \<^item> The request counters of \<open>AssetClient\<close> are static members shared by all connections.  The model of
    one connection keeps them with it, which is exact as long as no other connection runs between.
  \<^item> The socket options and the peer address of a new connection, and log lines, can throw in Boost;
    the model starts after them.
  \<^item> \<open>std::terminate\<close>, reached when the rollback of a transaction throws in its destructor, is counted
    as \<open>UndefinedBehaviour\<close>: neither is caught by a handler.
  \<^item> The Windows data file, the settings and the main program.  The other projects of the repository
    (the C# tools and the PhysX bindings) do not take part in the asset server.
\<close>

section \<open>A get from the client to the disk and back\<close>

lemma told_asset:
  assumes "cache_ok asked c" and "PostGet k (Some a) True None \<in> set (be_posted (ac_storage c))"
    and "k = Callback d \<or> k = GetCompleted SF_NONE d"
  shows "Asset_getUUID a = Inr (asked d) \<and> asset_fits a"
proof -
  have "posted_ok asked (stored (be_disk (ac_storage c))) (PostGet k (Some a) True None)"
    using cache_okD(5) [OF assms(1)] assms(2) by (auto simp: list_all_iff)
  then have "stored (be_disk (ac_storage c)) (asked d) = Some a" using assms(3) by auto
  then show ?thesis using cache_okD(3) [OF assms(1)] by (simp add: named_def)
qed

text \<open>
  C1: Take a disk whose assets have less than \<open>2 ^ 32\<close> bytes and their own ids, and a state the
  cache reaches from its start on it by gets and stores with valid ids, turns of the worker without
  faults and posted handlers in any order - there was no purge and no maintenance request - and in
  which the worker has not been told to stop.  A client that is logged in, waits for a request, has
  counters that do not overflow, and asks for a valid id the cache reports as existing receives the
  asset: the get request becomes a call to the cache, and once the worker has taken the queued
  requests, meeting no fault, and the network thread the posted handlers, the answer for the
  connection is the asset on the disk and the connection sends a found response with that id and the
  bytes of the asset.
\<close>

theorem get_end_to_end:
  assumes "started s b" and "named (stored s)" and "cache_reach asked (AssetCache_new m b) c"
    and "\<not> be_stop (ac_storage c)" and "io_ok io" and "IsValidUUID u" and "asked d = u"
    and "ac_assetExists u c = Inr True" and "waiting cl" and "stats_small cl"
  shows "\<exists>cl1 c1. client_step env (ReadDone (get_header u)) cl = (Inr (), cl1) \<and> cl_calls cl1 = [StorageGet u SF_NONE]
    \<and> ac_getAsset_flags now u SF_NONE d c = (Inr (), c1)
    \<and> (\<forall>ts. length ts = length (be_queue (ac_storage c1)) \<longrightarrow>
        (\<exists>c2. on_storage (work_turns io ts) c1 = (Inr (), c2)
    \<and> (\<forall>ns. length ns = length (be_posted (ac_storage c2)) \<longrightarrow>
        (\<exists>rs c3 a cl2 msg. posted_turns ns c2 = (Inr rs, c3) \<and> Some (PostGet d (Some a) True None) \<in> set rs
          \<and> stored (be_disk (ac_storage c3)) u = Some a
          \<and> client_step env (GetAnswer (Some a) True None) cl1 = (Inr (), cl2)
          \<and> cl_ops cl2 = [AsyncWrite (sr_header msg) (HandleResponseHeaderWrite msg)]
          \<and> getResponseCode msg = Inr (response_code RC_FOUND) \<and> Response_getUUID msg = Inr u \<and> sr_data msg = Some (getData a)))))"
proof -
  have c: "cache_ok asked c" using cache_reach_ok [OF assms(3) cache_new_ok [OF assms(1,2)]] .
  obtain c1 where c1: "ac_getAsset_flags now u SF_NONE d c = (Inr (), c1)" "cache_ok asked c1"
    using ac_getAsset_flags_ok [OF c assms(6,7)] by blast
  obtain cl1 where cl1: "client_step env (ReadDone (get_header u)) cl = (Inr (), cl1)" "cl_ops cl1 = []"
    "cl_calls cl1 = [StorageGet u SF_NONE]" "cl_connected cl1" "idle_auth (cl1\<lparr>cl_calls := []\<rparr>)"
    using get_request_read [OF assms(9,10,6)] by blast
  show ?thesis
  proof (rule exI, rule exI, rule conjI [OF cl1(1)], rule conjI [OF cl1(3)], rule conjI [OF c1(1)], intro allI impI)
    fix ts :: "(int \<times> int \<times> int) list" assume "length ts = length (be_queue (ac_storage c1))"
    from get_served [OF c assms(4,5,6,8) c1(1) [folded ac_getAsset_eq] c1(2) this] obtain c2 k a where
      c2: "on_storage (work_turns io ts) c1 = (Inr (), c2)" "cache_ok asked c2"
        "PostGet k (Some a) True None \<in> set (be_posted (ac_storage c2))" "k = Callback d \<or> k = GetCompleted SF_NONE d"
      by blast
    have a: "Asset_getUUID a = Inr u" "length (getData a) < 2 ^ 32"
      using told_asset [OF c2(2,3,4)] assms(7) by (simp_all add: asset_fits_def)
    from asset_sent [OF cl1(5,2,3,4) a, of env None] obtain msg where
      msg: "client_step env (GetAnswer (Some a) True None) cl1
        = (Inr (), cl1\<lparr>cl_calls := [], cl_ops := [AsyncWrite (sr_header msg) (HandleResponseHeaderWrite msg)]\<rparr>)"
      "getResponseCode msg = Inr (response_code RC_FOUND)" "Response_getUUID msg = Inr u" "sr_data msg = Some (getData a)" by blast
    from get_told [OF c2(2) _ c2(3,4)] msg c2(1) show "\<exists>c2. on_storage (work_turns io ts) c1 = (Inr (), c2)
      \<and> (\<forall>ns. length ns = length (be_posted (ac_storage c2)) \<longrightarrow>
        (\<exists>rs c3 a cl2 msg. posted_turns ns c2 = (Inr rs, c3) \<and> Some (PostGet d (Some a) True None) \<in> set rs
          \<and> stored (be_disk (ac_storage c3)) u = Some a
          \<and> client_step env (GetAnswer (Some a) True None) cl1 = (Inr (), cl2)
          \<and> cl_ops cl2 = [AsyncWrite (sr_header msg) (HandleResponseHeaderWrite msg)]
          \<and> getResponseCode msg = Inr (response_code RC_FOUND) \<and> Response_getUUID msg = Inr u \<and> sr_data msg = Some (getData a)))"
      unfolding assms(7) by (intro exI [of _ c2] conjI c2(1) allI impI) fastforce
  qed
qed

theorem get_end_to_end_witness:
  "\<exists>cl cl1 c1. session sample_env cl sample_login
    \<and> client_step sample_env (ReadDone (get_header (replicate 32 CHR ''a''))) cl = (Inr (), cl1)
    \<and> ac_getAsset_flags 1 (replicate 32 CHR ''a'') SF_NONE 8 sample_stored = (Inr (), c1)
    \<and> (\<exists>c2. on_storage (work_turns io_plain (replicate (length (be_queue (ac_storage c1))) (0, 0, 0))) c1 = (Inr (), c2)
    \<and> (\<exists>rs c3 a cl2 msg. posted_turns (replicate (length (be_posted (ac_storage c2))) 2) c2 = (Inr rs, c3)
          \<and> Some (PostGet 8 (Some a) True None) \<in> set rs
          \<and> client_step sample_env (GetAnswer (Some a) True None) cl1 = (Inr (), cl2)
          \<and> cl_ops cl2 = [AsyncWrite (sr_header msg) (HandleResponseHeaderWrite msg)]
          \<and> sr_data msg = Some (getData a)))"
proof -
  let ?u = "replicate 32 CHR ''a''"
  obtain cl where cl: "session sample_env cl sample_login" "waiting cl" "stats_small cl" using sample_login_run by blast
  from get_end_to_end [OF sample_cache_started(1), of "\<lambda>_. ?u" 1000000 sample_stored io_plain ?u 8 cl sample_env 1]
    sample_stored_facts io_ok_plain sample_valid cl show ?thesis
    unfolding sample_cache_started(2) by (metis length_replicate)
qed

end
